theory Spec2Isabelle
  imports Main
begin

section \<open>Python strings\<close>

text \<open>
  A Python \<open>str\<close> is modelled as a \<open>string\<close>: one \<open>char\<close> per code point, for the code
  points below 256. \<open>split_on c s\<close> is \<open>s.split(c)\<close> for a one-character separator: it
  never returns the empty list, and it keeps empty pieces.
\<close>

fun split_on :: "char \<Rightarrow> string \<Rightarrow> string list" where
  "split_on c [] = [[]]"
| "split_on c (x # xs) =
     (if x = c then [] # split_on c xs
      else (x # hd (split_on c xs)) # tl (split_on c xs))"

text \<open>\<open>join sep ps\<close> is \<open>sep.join(ps)\<close>.\<close>

fun join :: "string \<Rightarrow> string list \<Rightarrow> string" where
  "join sep [] = []"
| "join sep [p] = p"
| "join sep (p # q # ps) = p @ sep @ join sep (q # ps)"

text \<open>
  \<open>str.isspace\<close> on the code points below 256: tab, line feed, vertical tab, form feed,
  carriage return, the four separators 28 to 31, space, next line (133) and no-break
  space (160).
\<close>

definition is_space :: "char \<Rightarrow> bool" where
  "is_space c = ((of_char c :: nat) \<in> {9, 10, 11, 12, 13, 28, 29, 30, 31, 32, 133, 160})"

definition strip :: "string \<Rightarrow> string" where
  "strip s = rev (dropWhile is_space (rev (dropWhile is_space s)))"

definition is_digit :: "char \<Rightarrow> bool" where
  "is_digit c = (48 \<le> (of_char c :: nat) \<and> (of_char c :: nat) \<le> 57)"

definition digit_val :: "char \<Rightarrow> int" where
  "digit_val c = int (of_char c) - 48"

text \<open>
  The digits of a decimal literal as \<open>int(s)\<close> reads them: one or more digits, with single
  underscores allowed between two digits. The flag says whether the previous character
  was a digit; the result is the value together with the number of digits read.
\<close>

fun py_digits :: "bool \<Rightarrow> int \<Rightarrow> nat \<Rightarrow> string \<Rightarrow> (int \<times> nat) option" where
  "py_digits after_digit acc digits [] = (if after_digit then Some (acc, digits) else None)"
| "py_digits after_digit acc digits (c # cs) =
     (if is_digit c then py_digits True (acc * 10 + digit_val c) (Suc digits) cs
      else if c = CHR ''_'' \<and> after_digit then py_digits False acc digits cs
      else None)"

text \<open>
  The interpreter refuses a literal of more digits than its limit; the limit is taken at
  its default, 4300.
\<close>

definition max_str_digits :: nat where
  "max_str_digits = 4300"

definition py_unsigned :: "string \<Rightarrow> int option" where
  "py_unsigned s =
     (case py_digits False 0 0 s of
        None \<Rightarrow> None
      | Some (v, digits) \<Rightarrow> if max_str_digits < digits then None else Some v)"

text \<open>
  The whitespace \<open>int\<close> accepts around a literal is narrower than that of \<open>str.strip\<close>: tab,
  line feed, vertical tab, form feed, carriage return and space, and of the code
  points from 128 on the spaces next line (133) and no-break space (160). The
  separators 28 to 31 are not accepted.
\<close>

definition is_int_space :: "char \<Rightarrow> bool" where
  "is_int_space c = ((of_char c :: nat) \<in> {9, 10, 11, 12, 13, 32, 133, 160})"

text \<open>
  \<open>py_int s\<close> is \<open>int(s)\<close> for a string: surrounding whitespace is dropped, one sign is
  allowed, and \<open>None\<close> stands for \<open>ValueError\<close>.
\<close>

definition py_int :: "string \<Rightarrow> int option" where
  "py_int s =
     (case rev (dropWhile is_int_space (rev (dropWhile is_int_space s))) of
        [] \<Rightarrow> None
      | c # cs \<Rightarrow>
          if c = CHR ''-'' then map_option uminus (py_unsigned cs)
          else if c = CHR ''+'' then py_unsigned cs
          else py_unsigned (c # cs))"

section \<open>Exceptions\<close>

text \<open>
  Modelled from the spec: the module \<open>exceptions\<close> (\<open>InvalidColumnError\<close> and
  \<open>ConfigurationError\<close>, neither of them an \<open>AttributeError\<close>) is not among the sources.
  The other constructors are the built-in exceptions the code can raise. The message of
  an \<open>InvalidColumnError\<close> is a literal prefix followed by the formatted column name; the
  model keeps the prefix and the name apart.
\<close>

datatype pyval =
    PNone
  | PBool bool
  | PInt int
  | PStr string
  | PList "pyval list"
  | PDict "(string \<times> pyval) list"

datatype error =
    InvalidColumnError string pyval
  | ConfigurationError string
  | AttributeError
  | KeyError string
  | IndexError
  | TypeError
  | ValueError
  | NotImplementedError
  | UnboundLocalError
  | BackendError string

section \<open>The mapped schema and SQL expressions\<close>

text \<open>
  The ORM is outside the program. What the code asks of it is kept as a parameter: a
  \<open>schema\<close> gives, for a mapped class and an attribute name, what \<open>getattr\<close> finds there.
  A \<open>Relation\<close> has \<open>.property.mapper.class_\<close> and no \<open>.type\<close>; a \<open>Column\<close> (or any other
  SQL expression attribute) has a \<open>.type\<close> and no \<open>.property.mapper\<close>; \<open>Other\<close> is a plain
  class attribute with neither. A missing name raises \<open>AttributeError\<close>.
\<close>

type_synonym model = string

datatype sqltype = String | Text | Integer | DateTime | Date | TIMESTAMP | OtherType

datatype member = Relation model | Column sqltype | Other

type_synonym schema = "model \<Rightarrow> string \<Rightarrow> member option"

text \<open>
  The object \<open>getattr\<close> is applied to: the mapped class itself, or an alias made by
  \<open>aliased\<close>. Every call of \<open>aliased\<close> makes a new object; the number is its identity.
\<close>

datatype entity = Mapped model | Aliased nat model

fun model_of :: "entity \<Rightarrow> model" where
  "model_of (Mapped m) = m"
| "model_of (Aliased n m) = m"

record attr =
  a_owner :: entity
  a_name :: string
  a_member :: member

definition getattr :: "schema \<Rightarrow> entity \<Rightarrow> string \<Rightarrow> error + attr" where
  "getattr sch current_model part =
     (case sch (model_of current_model) part of
        None \<Rightarrow> Inl AttributeError
      | Some m \<Rightarrow> Inr \<lparr>a_owner = current_model, a_name = part, a_member = m\<rparr>)"

text \<open>\<open>relation_attr.property.mapper.class_\<close>\<close>

definition mapper_class :: "attr \<Rightarrow> error + model" where
  "mapper_class relation_attr =
     (case a_member relation_attr of Relation m \<Rightarrow> Inr m | _ \<Rightarrow> Inl AttributeError)"

text \<open>\<open>column_attr.type\<close>\<close>

definition attr_type :: "attr \<Rightarrow> error + sqltype" where
  "attr_type column_attr =
     (case a_member column_attr of Column t \<Rightarrow> Inr t | _ \<Rightarrow> Inl AttributeError)"

datatype expr = ColE attr | CastE expr sqltype

datatype literal = StrV string | IntV int

datatype pred =
    ILike expr string
  | Eq expr literal
  | Ne expr literal
  | NotP pred
  | Or "pred list"
  | And "pred list"

section \<open>enum.py\<close>

datatype MatchMode = CONTAINS | EQUALS | STARTS_WITH | ENDS_WITH | NOT_CONTAINS | NOT_EQUALS

section \<open>utils.py: build_condition\<close>

definition build_condition :: "attr \<Rightarrow> MatchMode \<Rightarrow> string \<Rightarrow> pred option" where
  "build_condition column_attr match_mode v =
     (case attr_type column_attr of
        Inl _ \<Rightarrow> None
      | Inr column_type \<Rightarrow>
          if column_type \<in> {String, Text} then
            (case match_mode of
               CONTAINS \<Rightarrow> Some (ILike (ColE column_attr) (''%'' @ v @ ''%''))
             | EQUALS \<Rightarrow> Some (Eq (ColE column_attr) (StrV v))
             | STARTS_WITH \<Rightarrow> Some (ILike (ColE column_attr) (v @ ''%''))
             | ENDS_WITH \<Rightarrow> Some (ILike (ColE column_attr) (''%'' @ v))
             | NOT_CONTAINS \<Rightarrow> Some (NotP (ILike (ColE column_attr) (''%'' @ v @ ''%'')))
             | NOT_EQUALS \<Rightarrow> Some (Ne (ColE column_attr) (StrV v)))
          else if column_type = Integer then
            (case py_int v of
               None \<Rightarrow> None
             | Some int_value \<Rightarrow>
                 (case match_mode of
                    EQUALS \<Rightarrow> Some (Eq (ColE column_attr) (IntV int_value))
                  | NOT_EQUALS \<Rightarrow> Some (Ne (ColE column_attr) (IntV int_value))
                  | _ \<Rightarrow> None))
          else if column_type \<in> {DateTime, Date, TIMESTAMP} then
            (let db_date_only = CastE (ColE column_attr) Date;
                 col_as_str = CastE db_date_only String;
                 clean_value = hd (split_on CHR ''T'' v)
             in case match_mode of
                  CONTAINS \<Rightarrow> Some (ILike col_as_str (''%'' @ clean_value @ ''%''))
                | EQUALS \<Rightarrow> Some (Eq col_as_str (StrV clean_value))
                | STARTS_WITH \<Rightarrow> Some (ILike col_as_str (clean_value @ ''%''))
                | ENDS_WITH \<Rightarrow> Some (ILike col_as_str (''%'' @ clean_value))
                | NOT_CONTAINS \<Rightarrow> Some (NotP (ILike col_as_str (''%'' @ clean_value @ ''%'')))
                | NOT_EQUALS \<Rightarrow> Some (Ne col_as_str (StrV clean_value)))
          else None)"

section \<open>Python values, dictionaries and lists\<close>

text \<open>
  \<open>pyval\<close> above is what a \<open>Dict[str, Any]\<close> of the request can hold once the request is
  decoded (floating-point numbers are left out). A dictionary is an association list in
  insertion order with distinct keys; \<open>map_of\<close> is the lookup.
\<close>

fun truthy :: "pyval \<Rightarrow> bool" where
  "truthy PNone = False"
| "truthy (PBool b) = b"
| "truthy (PInt i) = (i \<noteq> 0)"
| "truthy (PStr s) = (s \<noteq> [])"
| "truthy (PList xs) = (xs \<noteq> [])"
| "truthy (PDict d) = (d \<noteq> [])"

text \<open>\<open>d.get(k)\<close>, with \<open>None\<close> for a missing key.\<close>

definition dict_get :: "(string \<times> pyval) list \<Rightarrow> string \<Rightarrow> pyval" where
  "dict_get d k = (case map_of d k of None \<Rightarrow> PNone | Some v \<Rightarrow> v)"

text \<open>\<open>d[k] = v\<close>: an existing key keeps its place, a new key goes to the end.\<close>

fun dict_set :: "'k \<Rightarrow> 'v \<Rightarrow> ('k \<times> 'v) list \<Rightarrow> ('k \<times> 'v) list" where
  "dict_set k v [] = [(k, v)]"
| "dict_set k v (kv # d) = (if fst kv = k then (k, v) # d else kv # dict_set k v d)"

text \<open>\<open>int(x)\<close> on a decoded value.\<close>

fun int_of :: "pyval \<Rightarrow> error + int" where
  "int_of (PInt i) = Inr i"
| "int_of (PBool b) = Inr (if b then 1 else 0)"
| "int_of (PStr s) = (case py_int s of None \<Rightarrow> Inl ValueError | Some i \<Rightarrow> Inr i)"
| "int_of PNone = Inl TypeError"
| "int_of (PList xs) = Inl TypeError"
| "int_of (PDict d) = Inl TypeError"

text \<open>\<open>xs[i]\<close>: a negative index counts from the end, \<open>None\<close> stands for \<open>IndexError\<close>.\<close>

definition py_index :: "'a list \<Rightarrow> int \<Rightarrow> 'a option" where
  "py_index xs i =
     (let n = int (length xs); j = (if i < 0 then n + i else i)
      in if 0 \<le> j \<and> j < n then Some (xs ! nat j) else None)"

section \<open>Select statements\<close>

datatype order_term = Asc attr | Desc attr

record select =
  sel_from :: model
  sel_joins :: "(entity \<times> attr) list"
  sel_where :: "pred list"
  sel_order_by :: "order_term list"
  sel_offset :: "int option"
  sel_limit :: "int option"

text \<open>\<open>select(model)\<close>\<close>

definition select_model :: "model \<Rightarrow> select" where
  "select_model m =
     \<lparr>sel_from = m, sel_joins = [], sel_where = [], sel_order_by = [],
      sel_offset = None, sel_limit = None\<rparr>"

text \<open>\<open>stmt.join(aliased_model, relation_attr)\<close>\<close>

definition join_stmt :: "select \<Rightarrow> entity \<Rightarrow> attr \<Rightarrow> select" where
  "join_stmt stmt aliased_model relation_attr =
     stmt\<lparr>sel_joins := sel_joins stmt @ [(aliased_model, relation_attr)]\<rparr>"

text \<open>\<open>stmt.where(p)\<close>\<close>

definition where_stmt :: "select \<Rightarrow> pred \<Rightarrow> select" where
  "where_stmt stmt p = stmt\<lparr>sel_where := sel_where stmt @ [p]\<rparr>"

text \<open>\<open>stmt.order_by(t)\<close>\<close>

definition order_by :: "select \<Rightarrow> order_term \<Rightarrow> select" where
  "order_by stmt t = stmt\<lparr>sel_order_by := sel_order_by stmt @ [t]\<rparr>"

text \<open>
  \<open>attr.asc()\<close> and \<open>attr.desc()\<close>: a column gives an ordering term, a relationship has no
  such operator, a plain class attribute has no such method.
\<close>

definition asc :: "attr \<Rightarrow> error + order_term" where
  "asc a =
     (case a_member a of
        Column t \<Rightarrow> Inr (Asc a)
      | Relation m \<Rightarrow> Inl NotImplementedError
      | Other \<Rightarrow> Inl AttributeError)"

definition desc :: "attr \<Rightarrow> error + order_term" where
  "desc a =
     (case a_member a of
        Column t \<Rightarrow> Inr (Desc a)
      | Relation m \<Rightarrow> Inl NotImplementedError
      | Other \<Rightarrow> Inl AttributeError)"

section \<open>utils.py: resolve_column and apply_joins\<close>

text \<open>
  The two dictionaries a resolution works on, \<open>joins\<close> and \<open>aliased_models\<close>, together with
  the number of the next alias object.
\<close>

record env =
  joins :: "(string \<times> (attr \<times> entity)) list"
  aliased_models :: "(string \<times> entity) list"
  next_alias :: nat

definition empty_env :: "nat \<Rightarrow> env" where
  "empty_env n = \<lparr>joins = [], aliased_models = [], next_alias = n\<rparr>"

text \<open>
  The loop \<open>for i, part in enumerate(parts)\<close>. The arguments are the loop's variables:
  the current model, the path so far, the parts still to come and the attribute found
  so far. \<open>rest \<noteq> []\<close> is \<open>i < len(parts) - 1\<close>. \<open>get_filtered_query\<close> and \<open>apply_ordering\<close>
  of core.py contain the same loop, written out.
\<close>

fun resolve_parts ::
  "schema \<Rightarrow> entity \<Rightarrow> string list \<Rightarrow> string list \<Rightarrow> attr option \<Rightarrow> env
     \<Rightarrow> error + (attr option \<times> env)" where
  "resolve_parts sch current_model current_path [] current_attr e = Inr (current_attr, e)"
| "resolve_parts sch current_model current_path (part # rest) current_attr e =
     (if rest \<noteq> [] then
        (case map_of (aliased_models e) (join ''.'' (current_path @ [part])) of
           None \<Rightarrow>
             (case getattr sch current_model part of
                Inl x \<Rightarrow> Inl x
              | Inr relation_attr \<Rightarrow>
                  (case mapper_class relation_attr of
                     Inl x \<Rightarrow> Inl x
                   | Inr related_model \<Rightarrow>
                       resolve_parts sch (Aliased (next_alias e) related_model)
                         (current_path @ [part]) rest current_attr
                         (e\<lparr>aliased_models :=
                              dict_set (join ''.'' (current_path @ [part]))
                                (Aliased (next_alias e) related_model) (aliased_models e),
                            joins :=
                              dict_set (join ''.'' (current_path @ [part]))
                                (relation_attr, Aliased (next_alias e) related_model) (joins e),
                            next_alias := Suc (next_alias e)\<rparr>)))
         | Some aliased_model \<Rightarrow>
             resolve_parts sch aliased_model (current_path @ [part]) rest current_attr e)
      else
        (case getattr sch current_model part of
           Inl x \<Rightarrow> Inl x
         | Inr a \<Rightarrow> resolve_parts sch current_model (current_path @ [part]) rest (Some a) e))"

definition resolve_column :: "schema \<Rightarrow> model \<Rightarrow> string \<Rightarrow> env \<Rightarrow> error + (attr option \<times> env)" where
  "resolve_column sch model column_path e =
     resolve_parts sch (Mapped model) [] (split_on CHR ''.'' column_path) None e"

definition apply_joins :: "select \<Rightarrow> (string \<times> (attr \<times> entity)) list \<Rightarrow> select" where
  "apply_joins stmt js =
     fold (\<lambda>(key, (relation_attr, aliased_model)) s. join_stmt s aliased_model relation_attr)
       js stmt"

section \<open>utils.py: the typed request\<close>

text \<open>
  Modelled from the spec: the classes \<open>DataTablesColumn\<close> and the request with typed
  \<open>order\<close> and \<open>columns\<close> that utils.py imports from its own \<open>schema\<close> module are not
  among the sources. The fields are those of the request shape of the spec (name,
  searchable, orderable, search with value and matchMode; column and dir), read the
  way utils.py reads them; a search value may be absent, as the code tests it.
\<close>

record DataTablesSearch =
  "value" :: "string option"
  matchMode :: "MatchMode option"

record DataTablesColumn =
  name :: string
  searchable :: bool
  orderable :: bool
  search_c :: DataTablesSearch

record DataTablesOrder =
  column :: int
  dir :: string

record TypedRequest =
  order_t :: "DataTablesOrder list"
  columns_t :: "DataTablesColumn list"

section \<open>utils.py: global_filter\<close>

text \<open>The body of the loop over the columns, with its \<open>try\<close> and \<open>except AttributeError\<close>.\<close>

fun global_filter_loop ::
  "schema \<Rightarrow> model \<Rightarrow> string \<Rightarrow> DataTablesColumn list \<Rightarrow> pred list \<Rightarrow> env
     \<Rightarrow> error + (pred list \<times> env)" where
  "global_filter_loop sch model search_value [] search_conditions e =
     Inr (search_conditions, e)"
| "global_filter_loop sch model search_value (col # cols) search_conditions e =
     (if searchable col then
        (case resolve_column sch model (name col) e of
           Inl x \<Rightarrow>
             if x = AttributeError
             then Inl (InvalidColumnError ''Invalid column path: '' (PStr (name col)))
             else Inl x
         | Inr (current_attr, e') \<Rightarrow>
             (case current_attr of
                None \<Rightarrow> global_filter_loop sch model search_value cols search_conditions e'
              | Some a \<Rightarrow>
                  (case build_condition a CONTAINS search_value of
                     None \<Rightarrow>
                       global_filter_loop sch model search_value cols search_conditions e'
                   | Some condition \<Rightarrow>
                       global_filter_loop sch model search_value cols
                         (search_conditions @ [condition]) e')))
      else global_filter_loop sch model search_value cols search_conditions e)"

definition global_filter ::
  "schema \<Rightarrow> string \<Rightarrow> select \<Rightarrow> DataTablesColumn list \<Rightarrow> model \<Rightarrow> nat
     \<Rightarrow> error + (select \<times> nat)" where
  "global_filter sch search_value stmt cols model n =
     (if search_value \<noteq> [] then
        (case global_filter_loop sch model search_value cols [] (empty_env n) of
           Inl x \<Rightarrow> Inl x
         | Inr (search_conditions, e) \<Rightarrow>
             Inr (let stmt1 = apply_joins stmt (joins e)
                  in if search_conditions \<noteq> [] then where_stmt stmt1 (Or search_conditions)
                     else stmt1,
                  next_alias e))
      else Inr (stmt, n))"

section \<open>utils.py: column_filter\<close>

text \<open>\<open>col.search.value.strip() if col.search.value else ""\<close>\<close>

definition filter_value :: "DataTablesColumn \<Rightarrow> string" where
  "filter_value col =
     (case value (search_c col) of
        None \<Rightarrow> []
      | Some v \<Rightarrow> if v \<noteq> [] then strip v else [])"

fun column_filter_loop ::
  "schema \<Rightarrow> model \<Rightarrow> DataTablesColumn list \<Rightarrow> pred list \<Rightarrow> env
     \<Rightarrow> error + (pred list \<times> env)" where
  "column_filter_loop sch model [] column_conditions e = Inr (column_conditions, e)"
| "column_filter_loop sch model (col # cols) column_conditions e =
     (if \<not> searchable col then column_filter_loop sch model cols column_conditions e
      else if filter_value col = [] then column_filter_loop sch model cols column_conditions e
      else
        (case resolve_column sch model (name col) e of
           Inl x \<Rightarrow>
             if x = AttributeError
             then Inl (InvalidColumnError ''Invalid column path: '' (PStr (name col)))
             else Inl x
         | Inr (current_attr, e') \<Rightarrow>
             (case current_attr of
                None \<Rightarrow> column_filter_loop sch model cols column_conditions e'
              | Some a \<Rightarrow>
                  (case build_condition a CONTAINS (filter_value col) of
                     None \<Rightarrow> column_filter_loop sch model cols column_conditions e'
                   | Some condition \<Rightarrow>
                       column_filter_loop sch model cols
                         (column_conditions @ [condition]) e'))))"

definition column_filter ::
  "schema \<Rightarrow> select \<Rightarrow> DataTablesColumn list \<Rightarrow> model \<Rightarrow> nat \<Rightarrow> error + (select \<times> nat)" where
  "column_filter sch stmt cols model n =
     (case column_filter_loop sch model cols [] (empty_env n) of
        Inl x \<Rightarrow> Inl x
      | Inr (column_conditions, e) \<Rightarrow>
          Inr (let stmt1 = apply_joins stmt (joins e)
               in if column_conditions \<noteq> [] then where_stmt stmt1 (And column_conditions)
                  else stmt1,
               next_alias e))"

section \<open>utils.py: order_column\<close>

text \<open>The message \<open>Order direction must be 'asc' or 'desc'\<close>.\<close>

definition direction_message :: string where
  "direction_message =
     ''Order direction must be '' @ [CHR 0x27] @ ''asc'' @ [CHR 0x27] @ '' or ''
       @ [CHR 0x27] @ ''desc'' @ [CHR 0x27]"

text \<open>The \<open>try\<close> block of one order key; its dictionaries are new for every key.\<close>

definition order_column_try ::
  "schema \<Rightarrow> model \<Rightarrow> string \<Rightarrow> string \<Rightarrow> select \<Rightarrow> nat \<Rightarrow> error + (select \<times> nat)" where
  "order_column_try sch model col_name direction stmt n =
     (case resolve_column sch model col_name (empty_env n) of
        Inl x \<Rightarrow> Inl x
      | Inr (order_col, e) \<Rightarrow>
          (let stmt1 = apply_joins stmt (joins e)
           in if direction = ''asc'' then
                (case order_col of
                   None \<Rightarrow> Inl AttributeError
                 | Some a \<Rightarrow>
                     (case asc a of
                        Inl x \<Rightarrow> Inl x
                      | Inr t \<Rightarrow> Inr (order_by stmt1 t, next_alias e)))
              else if direction = ''desc'' then
                (case order_col of
                   None \<Rightarrow> Inl AttributeError
                 | Some a \<Rightarrow>
                     (case desc a of
                        Inl x \<Rightarrow> Inl x
                      | Inr t \<Rightarrow> Inr (order_by stmt1 t, next_alias e)))
              else Inl (ConfigurationError direction_message)))"

fun order_column_loop ::
  "schema \<Rightarrow> model \<Rightarrow> DataTablesColumn list \<Rightarrow> DataTablesOrder list \<Rightarrow> select \<Rightarrow> nat
     \<Rightarrow> error + (select \<times> nat)" where
  "order_column_loop sch model cols [] stmt n = Inr (stmt, n)"
| "order_column_loop sch model cols (ord # ords) stmt n =
     (case py_index cols (column ord) of
        None \<Rightarrow> Inl IndexError
      | Some col \<Rightarrow>
          if \<not> orderable col then order_column_loop sch model cols ords stmt n
          else if name col = [] then order_column_loop sch model cols ords stmt n
          else
            (case order_column_try sch model (name col) (dir ord) stmt n of
               Inl x \<Rightarrow>
                 if x = AttributeError
                 then Inl (InvalidColumnError ''Invalid column for ordering: '' (PStr (name col)))
                 else Inl x
             | Inr (stmt', n') \<Rightarrow> order_column_loop sch model cols ords stmt' n'))"

definition order_column ::
  "schema \<Rightarrow> model \<Rightarrow> select \<Rightarrow> TypedRequest \<Rightarrow> nat \<Rightarrow> error + (select \<times> nat)" where
  "order_column sch model stmt request_data n =
     (if order_t request_data = [] then Inr (stmt, n)
      else order_column_loop sch model (columns_t request_data) (order_t request_data) stmt n)"

section \<open>schema.py\<close>

text \<open>
  \<open>DataTablesRequest\<close>: every field is optional and has a default. A field of the
  constructor is either left out or given; a given value may be \<open>None\<close>. The decoding
  and validation of the values is the framework's and is not modelled.
\<close>

datatype 'a arg = Omitted | Given 'a

record DataTablesRequest =
  draw :: "int option"
  start :: "int option"
  length_v :: "int option"
  search :: "(string \<times> string) list option"
  order :: "(string \<times> pyval) list list option"
  columns :: "(string \<times> pyval) list list option"
  extra :: "(string \<times> pyval) list option"

fun default :: "'a \<Rightarrow> 'a arg \<Rightarrow> 'a" where
  "default d Omitted = d"
| "default d (Given v) = v"

definition DataTablesRequest_init ::
  "int option arg \<Rightarrow> int option arg \<Rightarrow> int option arg \<Rightarrow> (string \<times> string) list option arg
     \<Rightarrow> (string \<times> pyval) list list option arg \<Rightarrow> (string \<times> pyval) list list option arg
     \<Rightarrow> (string \<times> pyval) list option arg \<Rightarrow> DataTablesRequest" where
  "DataTablesRequest_init d s l se ord cols ex =
     \<lparr>draw = default (Some 1) d, start = default (Some 0) s, length_v = default (Some 10) l,
      search = default (Some []) se, order = default (Some []) ord,
      columns = default (Some []) cols, extra = default (Some []) ex\<rparr>"

section \<open>database.py\<close>

text \<open>
  A backend is its three operations; each may raise. The data type of the rows is left
  open.
\<close>

record 'rows DatabaseBackend =
  get_total_records :: "select \<Rightarrow> error + int"
  get_filtered_records :: "select \<Rightarrow> error + int"
  execute_query :: "select \<Rightarrow> error + 'rows"

text \<open>
  \<open>SQLAlchemyBackend\<close> builds count statements and hands them to its session; what
  they return, or raise, is the database library's and is not modelled. The theorems
  below speak of an arbitrary backend.
\<close>

section \<open>core.py\<close>

record 'rows response =
  r_draw :: "int option"
  recordsTotal :: int
  recordsFiltered :: int
  data :: 'rows

definition get_query :: "model \<Rightarrow> select option \<Rightarrow> select" where
  "get_query model base_statment =
     (case base_statment of None \<Rightarrow> select_model model | Some stmt \<Rightarrow> stmt)"

text \<open>
  \<open>request_data.search.get("value", "").strip() if request_data.search else ""\<close>
\<close>

definition search_value_of :: "DataTablesRequest \<Rightarrow> string" where
  "search_value_of request_data =
     (case search request_data of
        None \<Rightarrow> []
      | Some d \<Rightarrow>
          if d = [] then []
          else strip (case map_of d ''value'' of None \<Rightarrow> [] | Some v \<Rightarrow> v))"

text \<open>
  The outer \<open>try\<close> block of \<open>get_filtered_query\<close> for one searchable column: the name is
  split (a name that is not a string has no \<open>split\<close>), the path is walked, and a column
  of a string type adds its \<open>ilike\<close>; the inner \<open>try\<close> skips an attribute without a type.
\<close>

definition search_column ::
  "schema \<Rightarrow> model \<Rightarrow> string \<Rightarrow> pyval \<Rightarrow> pred list \<Rightarrow> env \<Rightarrow> error + (pred list \<times> env)" where
  "search_column sch model search_value column_path search_conditions e =
     (case column_path of
        PStr s \<Rightarrow>
          (case resolve_parts sch (Mapped model) [] (split_on CHR ''.'' s) None e of
             Inl x \<Rightarrow> Inl x
           | Inr (current_attr, e') \<Rightarrow>
               (case current_attr of
                  None \<Rightarrow> Inr (search_conditions, e')
                | Some a \<Rightarrow>
                    (case attr_type a of
                       Inl x \<Rightarrow> Inr (search_conditions, e')
                     | Inr column_type \<Rightarrow>
                         if column_type \<in> {String, Text}
                         then Inr (search_conditions
                                     @ [ILike (ColE a) (''%'' @ search_value @ ''%'')], e')
                         else Inr (search_conditions, e'))))
      | _ \<Rightarrow> Inl AttributeError)"

fun search_columns ::
  "schema \<Rightarrow> model \<Rightarrow> string \<Rightarrow> (string \<times> pyval) list list \<Rightarrow> pred list \<Rightarrow> env
     \<Rightarrow> error + (pred list \<times> env)" where
  "search_columns sch model search_value [] search_conditions e = Inr (search_conditions, e)"
| "search_columns sch model search_value (col # cols) search_conditions e =
     (if truthy (dict_get col ''searchable'') then
        (case map_of col ''name'' of
           None \<Rightarrow> Inl (KeyError ''name'')
         | Some column_path \<Rightarrow>
             (case search_column sch model search_value column_path search_conditions e of
                Inl x \<Rightarrow>
                  if x = AttributeError
                  then Inl (InvalidColumnError ''Invalid column path: '' column_path)
                  else Inl x
              | Inr (search_conditions', e') \<Rightarrow>
                  search_columns sch model search_value cols search_conditions' e'))
      else search_columns sch model search_value cols search_conditions e)"

definition get_filtered_query ::
  "schema \<Rightarrow> model \<Rightarrow> select \<Rightarrow> DataTablesRequest \<Rightarrow> nat \<Rightarrow> error + (select \<times> nat)" where
  "get_filtered_query sch model stmt request_data n =
     (let search_value = search_value_of request_data
      in if search_value \<noteq> [] then
           (case columns request_data of
              None \<Rightarrow> Inl TypeError
            | Some cols \<Rightarrow>
                (case search_columns sch model search_value cols [] (empty_env n) of
                   Inl x \<Rightarrow> Inl x
                 | Inr (search_conditions, e) \<Rightarrow>
                     Inr (let stmt1 = apply_joins stmt (joins e)
                          in if search_conditions \<noteq> []
                             then where_stmt stmt1 (Or search_conditions)
                             else stmt1,
                          next_alias e)))
         else Inr (stmt, n))"

text \<open>
  The \<open>try\<close> block of \<open>apply_ordering\<close> for one order key. The dictionaries are created
  inside the loop, so every key starts from empty ones.
\<close>

definition apply_ordering_try ::
  "schema \<Rightarrow> model \<Rightarrow> pyval \<Rightarrow> pyval \<Rightarrow> select \<Rightarrow> nat \<Rightarrow> error + (select \<times> nat)" where
  "apply_ordering_try sch model col_name direction stmt n =
     (case col_name of
        PStr s \<Rightarrow>
          (case resolve_parts sch (Mapped model) [] (split_on CHR ''.'' s) None (empty_env n) of
             Inl x \<Rightarrow> Inl x
           | Inr (order_column', e) \<Rightarrow>
               (let stmt1 = apply_joins stmt (joins e)
                in if direction = PStr ''asc'' then
                     (case order_column' of
                        None \<Rightarrow> Inl UnboundLocalError
                      | Some a \<Rightarrow>
                          (case asc a of
                             Inl x \<Rightarrow> Inl x
                           | Inr t \<Rightarrow> Inr (order_by stmt1 t, next_alias e)))
                   else if direction = PStr ''desc'' then
                     (case order_column' of
                        None \<Rightarrow> Inl UnboundLocalError
                      | Some a \<Rightarrow>
                          (case desc a of
                             Inl x \<Rightarrow> Inl x
                           | Inr t \<Rightarrow> Inr (order_by stmt1 t, next_alias e)))
                   else Inl (ConfigurationError direction_message)))
      | _ \<Rightarrow> Inl AttributeError)"

text \<open>One round of the loop over \<open>request_data.order\<close>.\<close>

definition apply_ordering_step ::
  "schema \<Rightarrow> model \<Rightarrow> (string \<times> pyval) list list option \<Rightarrow> (string \<times> pyval) list
     \<Rightarrow> select \<Rightarrow> nat \<Rightarrow> error + (select \<times> nat)" where
  "apply_ordering_step sch model cols ord stmt n =
     (case map_of ord ''column'' of
        None \<Rightarrow> Inl (KeyError ''column'')
      | Some col_index \<Rightarrow>
          (case int_of col_index of
             Inl x \<Rightarrow> Inl x
           | Inr i \<Rightarrow>
               (case cols of
                  None \<Rightarrow> Inl TypeError
                | Some cs \<Rightarrow>
                    (case py_index cs i of
                       None \<Rightarrow> Inl IndexError
                     | Some col \<Rightarrow>
                         (case map_of col ''name'' of
                            None \<Rightarrow> Inl (KeyError ''name'')
                          | Some col_name \<Rightarrow>
                              (case map_of ord ''dir'' of
                                 None \<Rightarrow> Inl (KeyError ''dir'')
                               | Some direction \<Rightarrow>
                                   (case apply_ordering_try sch model col_name direction stmt n of
                                      Inl x \<Rightarrow>
                                        if x = AttributeError
                                        then Inl (InvalidColumnError
                                                    ''Invalid column for ordering: '' col_name)
                                        else Inl x
                                    | Inr y \<Rightarrow> Inr y)))))))"

fun apply_ordering_loop ::
  "schema \<Rightarrow> model \<Rightarrow> (string \<times> pyval) list list option \<Rightarrow> (string \<times> pyval) list list
     \<Rightarrow> select \<Rightarrow> nat \<Rightarrow> error + (select \<times> nat)" where
  "apply_ordering_loop sch model cols [] stmt n = Inr (stmt, n)"
| "apply_ordering_loop sch model cols (ord # ords) stmt n =
     (case apply_ordering_step sch model cols ord stmt n of
        Inl x \<Rightarrow> Inl x
      | Inr (stmt', n') \<Rightarrow> apply_ordering_loop sch model cols ords stmt' n')"

definition apply_ordering ::
  "schema \<Rightarrow> model \<Rightarrow> select \<Rightarrow> DataTablesRequest \<Rightarrow> nat \<Rightarrow> error + (select \<times> nat)" where
  "apply_ordering sch model stmt request_data n =
     (case order request_data of
        None \<Rightarrow> Inr (stmt, n)
      | Some ords \<Rightarrow>
          if ords = [] then Inr (stmt, n)
          else apply_ordering_loop sch model (columns request_data) ords stmt n)"

text \<open>
  \<open>process\<close>. The last argument is the number of the first alias object the call makes.
\<close>

definition process ::
  "'rows DatabaseBackend \<Rightarrow> schema \<Rightarrow> model \<Rightarrow> select option \<Rightarrow> DataTablesRequest \<Rightarrow> nat
     \<Rightarrow> error + 'rows response" where
  "process db_backend sch model base_statment request_data n =
     (let stmt = get_query model base_statment
      in case get_total_records db_backend stmt of
           Inl x \<Rightarrow> Inl x
         | Inr records_total \<Rightarrow>
             (case get_filtered_query sch model stmt request_data n of
                Inl x \<Rightarrow> Inl x
              | Inr (stmt1, n1) \<Rightarrow>
                  (case get_filtered_records db_backend stmt1 of
                     Inl x \<Rightarrow> Inl x
                   | Inr records_filtered \<Rightarrow>
                       (case apply_ordering sch model stmt1 request_data n1 of
                          Inl x \<Rightarrow> Inl x
                        | Inr (stmt2, n2) \<Rightarrow>
                            (case execute_query db_backend
                                    (stmt2\<lparr>sel_offset := start request_data,
                                           sel_limit := length_v request_data\<rparr>) of
                               Inl x \<Rightarrow> Inl x
                             | Inr rows \<Rightarrow>
                                 Inr \<lparr>r_draw = draw request_data,
                                      recordsTotal = records_total,
                                      recordsFiltered = records_filtered,
                                      data = rows\<rparr>)))))"

section \<open>Known paths\<close>

text \<open>
  The words of the spec for a path that resolves: every segment but the last names a
  relation of the entity reached so far, and the last segment names an attribute of the
  entity reached. \<open>rel_target\<close> is the entity a chain of relation segments leads to.
\<close>

fun known_path :: "schema \<Rightarrow> model \<Rightarrow> string list \<Rightarrow> bool" where
  "known_path sch m [] = True"
| "known_path sch m (part # rest) =
     (if rest \<noteq> [] then
        (case sch m part of
           Some (Relation m') \<Rightarrow> known_path sch m' rest
         | _ \<Rightarrow> False)
      else sch m part \<noteq> None)"

fun rel_target :: "schema \<Rightarrow> model \<Rightarrow> string list \<Rightarrow> model option" where
  "rel_target sch m [] = Some m"
| "rel_target sch m (part # rest) =
     (case sch m part of
        Some (Relation m') \<Rightarrow> rel_target sch m' rest
      | _ \<Rightarrow> None)"

section \<open>An example schema and example backends\<close>

text \<open>
  Books with a title, a number of pages, a publication time and a relation to their
  author; authors with a name and a relation to their country; countries with a name.
\<close>

definition library :: schema where
  "library m a =
     map_of
       [((''Book'', ''title''), Column String),
        ((''Book'', ''pages''), Column Integer),
        ((''Book'', ''published''), Column DateTime),
        ((''Book'', ''author''), Relation ''Author''),
        ((''Author'', ''name''), Column String),
        ((''Author'', ''country''), Relation ''Country''),
        ((''Country'', ''name''), Column String)]
       (m, a)"

text \<open>
  The dictionaries that resolving \<open>author.country.name\<close> on a book leaves behind when it
  starts from empty ones and the next alias is number 0.
\<close>

definition author_country_env :: env where
  "author_country_env =
     \<lparr>joins =
        [(''author'',
          (\<lparr>a_owner = Mapped ''Book'', a_name = ''author'', a_member = Relation ''Author''\<rparr>,
           Aliased 0 ''Author'')),
         (''author.country'',
          (\<lparr>a_owner = Aliased 0 ''Author'', a_name = ''country'',
             a_member = Relation ''Country''\<rparr>,
           Aliased 1 ''Country''))],
      aliased_models =
        [(''author'', Aliased 0 ''Author''), (''author.country'', Aliased 1 ''Country'')],
      next_alias = 2\<rparr>"

text \<open>
  \<open>echo_backend\<close> counts three rows for every statement and answers an executed
  statement with one row holding the statement itself, so the executed statement can be
  read from the response.
\<close>

definition echo_backend :: "select list DatabaseBackend" where
  "echo_backend =
     \<lparr>get_total_records = (\<lambda>stmt. Inr 3),
      get_filtered_records = (\<lambda>stmt. Inr 3),
      execute_query = (\<lambda>stmt. Inr [stmt])\<rparr>"


section \<open>Facts about the string functions\<close>

lemma split_on_nonempty: "split_on c s \<noteq> []"
  by (induction s) auto

text \<open>An equation for \<open>split_on\<close> that evaluates the recursive call once.\<close>

lemma split_on_code [code]:
  "split_on c [] = [[]]"
  "split_on c (x # xs) =
     (if x = c then [] # split_on c xs
      else (case split_on c xs of [] \<Rightarrow> [[x]] | p # ps \<Rightarrow> (x # p) # ps))"
  using split_on_nonempty [of c xs] by (cases "split_on c xs"; simp)+

lemma hd_split_on: "hd (split_on c s) = takeWhile (\<lambda>x. x \<noteq> c) s"
  by (induction s) auto

text \<open>From here on \<open>split_on\<close> is evaluated with that equation.\<close>

declare split_on.simps [simp del]

declare split_on_code [simp]

section \<open>build_condition\<close>

text \<open>
  C8. On an attribute of integer type, \<open>build_condition\<close> returns a predicate exactly
  when the raw value parses as a whole number and the match mode is \<open>equals\<close> or
  \<open>notEquals\<close>; the predicate compares the attribute with the parsed number. In every
  other case the result is \<open>None\<close>: there is no error branch.
\<close>

theorem build_condition_integer:
  assumes "a_member column_attr = Column Integer"
  shows "build_condition column_attr match_mode v =
           (case py_int v of
              None \<Rightarrow> None
            | Some n \<Rightarrow>
                if match_mode = EQUALS then Some (Eq (ColE column_attr) (IntV n))
                else if match_mode = NOT_EQUALS then Some (Ne (ColE column_attr) (IntV n))
                else None)
         \<and> (build_condition column_attr match_mode v \<noteq> None) =
           (py_int v \<noteq> None \<and> match_mode \<in> {EQUALS, NOT_EQUALS})"
  using assms
  by (cases match_mode; simp add: build_condition_def attr_type_def split: option.splits)

theorem build_condition_integer_witness:
  "build_condition \<lparr>a_owner = Mapped ''Student'', a_name = ''age'', a_member = Column Integer\<rparr>
       EQUALS '' 21 ''
     = Some (Eq (ColE \<lparr>a_owner = Mapped ''Student'', a_name = ''age'', a_member = Column Integer\<rparr>)
               (IntV 21))
   \<and> build_condition \<lparr>a_owner = Mapped ''Student'', a_name = ''age'', a_member = Column Integer\<rparr>
       EQUALS ''2x'' = None
   \<and> build_condition \<lparr>a_owner = Mapped ''Student'', a_name = ''age'', a_member = Column Integer\<rparr>
       EQUALS [CHR ''7'', CHR 0x1F] = None
   \<and> build_condition \<lparr>a_owner = Mapped ''Student'', a_name = ''age'', a_member = Column Integer\<rparr>
       CONTAINS ''21'' = None"
  using build_condition_integer
    [of "\<lparr>a_owner = Mapped ''Student'', a_name = ''age'', a_member = Column Integer\<rparr>"]
  by (simp add: py_int_def py_unsigned_def max_str_digits_def is_int_space_def is_digit_def
        digit_val_def)

text \<open>
  C9. On an attribute of a date or time type, every match mode compares the attribute
  cast to a date and then to a string with the raw value cut at its first \<open>T\<close>; so a
  value followed by \<open>T\<close> and anything else gives the predicate of the value alone.
\<close>

theorem build_condition_temporal:
  assumes "a_member column_attr = Column t" and "t \<in> {DateTime, Date, TIMESTAMP}"
  shows "build_condition column_attr match_mode v =
           (let col_as_str = CastE (CastE (ColE column_attr) Date) String;
                d = takeWhile (\<lambda>c. c \<noteq> CHR ''T'') v
            in case match_mode of
                 CONTAINS \<Rightarrow> Some (ILike col_as_str (''%'' @ d @ ''%''))
               | EQUALS \<Rightarrow> Some (Eq col_as_str (StrV d))
               | STARTS_WITH \<Rightarrow> Some (ILike col_as_str (d @ ''%''))
               | ENDS_WITH \<Rightarrow> Some (ILike col_as_str (''%'' @ d))
               | NOT_CONTAINS \<Rightarrow> Some (NotP (ILike col_as_str (''%'' @ d @ ''%'')))
               | NOT_EQUALS \<Rightarrow> Some (Ne col_as_str (StrV d)))
         \<and> (CHR ''T'' \<notin> set day \<longrightarrow>
              build_condition column_attr match_mode (day @ CHR ''T'' # rest) =
              build_condition column_attr match_mode day)"
proof -
  have ty: "attr_type column_attr = Inr t" "t \<notin> {String, Text}" "t \<noteq> Integer"
    using assms by (auto simp: attr_type_def)
  have first: "build_condition column_attr match_mode v =
           (let col_as_str = CastE (CastE (ColE column_attr) Date) String;
                d = takeWhile (\<lambda>c. c \<noteq> CHR ''T'') v
            in case match_mode of
                 CONTAINS \<Rightarrow> Some (ILike col_as_str (''%'' @ d @ ''%''))
               | EQUALS \<Rightarrow> Some (Eq col_as_str (StrV d))
               | STARTS_WITH \<Rightarrow> Some (ILike col_as_str (d @ ''%''))
               | ENDS_WITH \<Rightarrow> Some (ILike col_as_str (''%'' @ d))
               | NOT_CONTAINS \<Rightarrow> Some (NotP (ILike col_as_str (''%'' @ d @ ''%'')))
               | NOT_EQUALS \<Rightarrow> Some (Ne col_as_str (StrV d)))"
    using ty assms(2) by (simp add: build_condition_def hd_split_on Let_def)
  have second: "build_condition column_attr match_mode (day @ CHR ''T'' # rest) =
           build_condition column_attr match_mode day" if "CHR ''T'' \<notin> set day"
  proof -
    from that
    have cut: "hd (split_on CHR ''T'' (day @ CHR ''T'' # rest)) = hd (split_on CHR ''T'' day)"
      by (auto simp: hd_split_on takeWhile_tail)
    show ?thesis
      using ty assms(2) by (simp add: build_condition_def cut del: split_on.simps)
  qed
  from first second show ?thesis by blast
qed

theorem build_condition_temporal_witness:
  "build_condition \<lparr>a_owner = Mapped ''Post'', a_name = ''created'', a_member = Column DateTime\<rparr>
       EQUALS ''2024-01-02T10:30:00''
     = Some (Eq (CastE (CastE (ColE \<lparr>a_owner = Mapped ''Post'', a_name = ''created'',
                                     a_member = Column DateTime\<rparr>) Date) String)
               (StrV ''2024-01-02''))
   \<and> CHR ''T'' \<notin> set ''2024-01-02''
   \<and> build_condition \<lparr>a_owner = Mapped ''Post'', a_name = ''created'', a_member = Column DateTime\<rparr>
       NOT_EQUALS (''2024-01-02'' @ CHR ''T'' # ''10:30:00'')
     = build_condition \<lparr>a_owner = Mapped ''Post'', a_name = ''created'', a_member = Column DateTime\<rparr>
       NOT_EQUALS ''2024-01-02''"
proof -
  have ty: "a_member \<lparr>a_owner = Mapped ''Post'', a_name = ''created'', a_member = Column DateTime\<rparr>
              = Column DateTime"
    and mem: "DateTime \<in> {DateTime, Date, TIMESTAMP}"
    and noT: "CHR ''T'' \<notin> set ''2024-01-02''"
    by simp_all
  have first: "build_condition \<lparr>a_owner = Mapped ''Post'', a_name = ''created'', a_member = Column DateTime\<rparr>
       EQUALS ''2024-01-02T10:30:00''
     = Some (Eq (CastE (CastE (ColE \<lparr>a_owner = Mapped ''Post'', a_name = ''created'',
                                     a_member = Column DateTime\<rparr>) Date) String)
               (StrV ''2024-01-02''))"
    using build_condition_temporal [OF ty mem, of EQUALS "''2024-01-02T10:30:00''", THEN conjunct1]
    by simp
  have second: "build_condition \<lparr>a_owner = Mapped ''Post'', a_name = ''created'', a_member = Column DateTime\<rparr>
       NOT_EQUALS (''2024-01-02'' @ CHR ''T'' # ''10:30:00'')
     = build_condition \<lparr>a_owner = Mapped ''Post'', a_name = ''created'', a_member = Column DateTime\<rparr>
       NOT_EQUALS ''2024-01-02''"
    by (rule build_condition_temporal [OF ty mem, THEN conjunct2, THEN mp, OF noT])
  from first noT second show ?thesis by (intro conjI)
qed

section \<open>process: search, counts and pagination\<close>

lemma strip_Nil: "strip [] = []" by (simp add: strip_def)




text \<open>
  C10. Whenever \<open>process\<close> returns a response, its rows are those of executing the
  ordered statement with its offset set to the request's \<open>start\<close> and its limit set to
  the request's \<open>length\<close>, unchanged whatever their values; a request built without a
  length has the limit 10, and a given length is kept as it is.
\<close>

theorem process_pagination:
  "(\<forall>resp. process db_backend sch model base_statment request_data n = Inr resp \<longrightarrow>
      (\<exists>stmt1 n1 stmt2 n2.
          get_filtered_query sch model (get_query model base_statment) request_data n = Inr (stmt1, n1)
        \<and> apply_ordering sch model stmt1 request_data n1 = Inr (stmt2, n2)
        \<and> execute_query db_backend
              (stmt2\<lparr>sel_offset := start request_data, sel_limit := length_v request_data\<rparr>)
            = Inr (data resp)))
   \<and> length_v (DataTablesRequest_init d s Omitted se ord cols ex) = Some 10
   \<and> length_v (DataTablesRequest_init d s (Given l) se ord cols ex) = l"
  by (auto simp: process_def Let_def DataTablesRequest_init_def split: sum.splits prod.splits)

theorem process_pagination_witness:
  "process echo_backend library ''Book'' None
        (DataTablesRequest_init Omitted (Given (Some 20)) (Given (Some (- 1))) Omitted Omitted Omitted Omitted) 0
      = Inr \<lparr>r_draw = Some 1, recordsTotal = 3, recordsFiltered = 3,
             data = [(select_model ''Book'')\<lparr>sel_offset := Some 20, sel_limit := Some (- 1)\<rparr>]\<rparr>"
  using process_pagination [of echo_backend library "''Book''" None
        "DataTablesRequest_init Omitted (Given (Some 20)) (Given (Some (- 1))) Omitted Omitted Omitted Omitted" 0]
  by (simp add: search_value_of_def DataTablesRequest_init_def strip_def process_def get_query_def
       echo_backend_def apply_ordering_def select_model_def get_filtered_query_def)

text \<open>
  C4. \<open>apply_ordering\<close>, which \<open>process\<close> calls, never reads \<open>orderable\<close>: an order key on a
  column with \<open>orderable = false\<close> is applied. \<open>order_column\<close> of utils.py skips the same
  key and returns the statement unchanged.
\<close>

theorem apply_ordering_not_orderable:
  "apply_ordering library ''Book'' (select_model ''Book'')
     (DataTablesRequest_init Omitted Omitted Omitted Omitted
        (Given (Some [[(''column'', PInt 0), (''dir'', PStr ''asc'')]]))
        (Given (Some [[(''name'', PStr ''title''), (''orderable'', PBool False)]])) Omitted) 0
   = Inr ((select_model ''Book'')
            \<lparr>sel_order_by := [Asc \<lparr>a_owner = Mapped ''Book'', a_name = ''title'',
                                   a_member = Column String\<rparr>]\<rparr>, 0)
   \<and> order_column library ''Book'' (select_model ''Book'')
       \<lparr>order_t = [\<lparr>column = 0, dir = ''asc''\<rparr>],
        columns_t = [\<lparr>name = ''title'', searchable = True, orderable = False,
                      search_c = \<lparr>value = None, matchMode = None\<rparr>\<rparr>]\<rparr> 0
     = Inr (select_model ''Book'', 0)"
  by code_simp

text \<open>
  C5. \<open>column_filter\<close> passes the constant \<open>CONTAINS\<close> to \<open>build_condition\<close>: a column that
  declares the match mode \<open>equals\<close> is filtered with a substring match, although
  \<open>build_condition\<close> called with \<open>EQUALS\<close> would build the equality.
\<close>

theorem column_filter_ignores_match_mode:
  "column_filter library (select_model ''Book'')
     [\<lparr>name = ''title'', searchable = True, orderable = True,
       search_c = \<lparr>value = Some ''dune'', matchMode = Some EQUALS\<rparr>\<rparr>] ''Book'' 0
   = Inr ((select_model ''Book'')
            \<lparr>sel_where := [And [ILike (ColE \<lparr>a_owner = Mapped ''Book'', a_name = ''title'',
                                              a_member = Column String\<rparr>) ''%dune%'']]\<rparr>, 0)
   \<and> build_condition \<lparr>a_owner = Mapped ''Book'', a_name = ''title'', a_member = Column String\<rparr>
        EQUALS ''dune''
     = Some (Eq (ColE \<lparr>a_owner = Mapped ''Book'', a_name = ''title'', a_member = Column String\<rparr>)
               (StrV ''dune''))"
  by code_simp

section \<open>Resolution against one pair of dictionaries\<close>

lemma map_of_dict_set:
  "map_of (dict_set k v d) k' = (if k' = k then Some v else map_of d k')"
  by (induction d) auto

lemma resolve_parts_keeps:
  "resolve_parts sch cm cp parts ca e = Inr (a, e') \<Longrightarrow>
   map_of (aliased_models e) k = Some v \<Longrightarrow> map_of (aliased_models e') k = Some v"
proof (induction sch cm cp parts ca e rule: resolve_parts.induct)
  case (1 sch cm cp ca e)
  then show ?case by simp
next
  case (2 sch cm cp part rest ca e)
  show ?case
  proof (cases "rest = []")
    case True
    with 2 show ?thesis by (auto split: sum.splits)
  next
    case False
    show ?thesis
    proof (cases "map_of (aliased_models e) (join ''.'' (cp @ [part]))")
      case None
      from "2.prems"(1) False None obtain ra rm where
        ga: "getattr sch cm part = Inr ra" and mc: "mapper_class ra = Inr rm"
        and rec: "resolve_parts sch (Aliased (next_alias e) rm) (cp @ [part]) rest ca
                    (e\<lparr>aliased_models :=
                         dict_set (join ''.'' (cp @ [part])) (Aliased (next_alias e) rm)
                           (aliased_models e),
                       joins :=
                         dict_set (join ''.'' (cp @ [part])) (ra, Aliased (next_alias e) rm)
                           (joins e),
                       next_alias := Suc (next_alias e)\<rparr>) = Inr (a, e')"
        by (auto split: sum.splits)
      from None "2.prems"(2) have "k \<noteq> join ''.'' (cp @ [part])" by auto
      with "2.prems"(2) show ?thesis
        by (intro "2.IH"(1) [OF False None ga mc rec]) (simp add: map_of_dict_set)
    next
      case (Some al)
      with False "2.prems" show ?thesis by (auto intro: "2.IH"(2))
    qed
  qed
qed

lemma resolve_parts_again:
  "resolve_parts sch cm cp parts ca e = Inr (a, e1) \<Longrightarrow>
   (\<forall>k v. map_of (aliased_models e1) k = Some v \<longrightarrow> map_of (aliased_models e2) k = Some v) \<Longrightarrow>
   resolve_parts sch cm cp parts ca e2 = Inr (a, e2)"
proof (induction sch cm cp parts ca e rule: resolve_parts.induct)
  case (1 sch cm cp ca e)
  then show ?case by simp
next
  case (2 sch cm cp part rest ca e)
  show ?case
  proof (cases "rest = []")
    case True
    with 2 show ?thesis by (auto split: sum.splits)
  next
    case False
    let ?key = "join ''.'' (cp @ [part])"
    show ?thesis
    proof (cases "map_of (aliased_models e) ?key")
      case None
      from "2.prems"(1) False None obtain ra rm where
        ga: "getattr sch cm part = Inr ra" and mc: "mapper_class ra = Inr rm"
        and rec: "resolve_parts sch (Aliased (next_alias e) rm) (cp @ [part]) rest ca
                    (e\<lparr>aliased_models := dict_set ?key (Aliased (next_alias e) rm) (aliased_models e),
                       joins := dict_set ?key (ra, Aliased (next_alias e) rm) (joins e),
                       next_alias := Suc (next_alias e)\<rparr>) = Inr (a, e1)"
        by (auto split: sum.splits)
      have "map_of (aliased_models e1) ?key = Some (Aliased (next_alias e) rm)"
        by (rule resolve_parts_keeps [OF rec]) (simp add: map_of_dict_set)
      with "2.prems"(2) have in2: "map_of (aliased_models e2) ?key = Some (Aliased (next_alias e) rm)"
        by blast
      have "resolve_parts sch (Aliased (next_alias e) rm) (cp @ [part]) rest ca e2 = Inr (a, e2)"
        using "2.IH"(1) [OF False None ga mc rec "2.prems"(2)] .
      with False in2 show ?thesis by simp
    next
      case (Some al)
      with "2.prems"(1) False have rec: "resolve_parts sch al (cp @ [part]) rest ca e = Inr (a, e1)"
        by simp
      have "map_of (aliased_models e1) ?key = Some al"
        by (rule resolve_parts_keeps [OF rec Some])
      with "2.prems"(2) have in2: "map_of (aliased_models e2) ?key = Some al" by blast
      have "resolve_parts sch al (cp @ [part]) rest ca e2 = Inr (a, e2)"
        using "2.IH"(2) [OF False Some rec "2.prems"(2)] .
      with False in2 show ?thesis by simp
    qed
  qed
qed

lemma keys_dict_set: "fst ` set (dict_set k v d) = insert k (fst ` set d)"
  by (induction d) auto

lemma distinct_dict_set: "distinct (map fst d) \<Longrightarrow> distinct (map fst (dict_set k v d))"
proof (induction d)
  case Nil
  then show ?case by simp
next
  case (Cons kv d)
  show ?case
  proof (cases "fst kv = k")
    case True
    with Cons.prems show ?thesis by simp
  next
    case False
    from Cons.prems have "fst kv \<notin> fst ` set d" by simp
    with False have "fst kv \<notin> fst ` set (dict_set k v d)"
      by (simp add: keys_dict_set)
    with False Cons show ?thesis by simp
  qed
qed

lemma resolve_parts_distinct:
  "resolve_parts sch cm cp parts ca e = Inr (a, e') \<Longrightarrow>
   distinct (map fst (aliased_models e)) \<and> distinct (map fst (joins e)) \<Longrightarrow>
   distinct (map fst (aliased_models e')) \<and> distinct (map fst (joins e'))"
proof (induction sch cm cp parts ca e rule: resolve_parts.induct)
  case (1 sch cm cp ca e)
  then show ?case by simp
next
  case (2 sch cm cp part rest ca e)
  show ?case
  proof (cases "rest = []")
    case True
    with 2 show ?thesis by (auto split: sum.splits)
  next
    case False
    show ?thesis
    proof (cases "map_of (aliased_models e) (join ''.'' (cp @ [part]))")
      case None
      from "2.prems"(1) False None obtain ra rm where
        ga: "getattr sch cm part = Inr ra" and mc: "mapper_class ra = Inr rm"
        and rec: "resolve_parts sch (Aliased (next_alias e) rm) (cp @ [part]) rest ca
                    (e\<lparr>aliased_models :=
                         dict_set (join ''.'' (cp @ [part])) (Aliased (next_alias e) rm)
                           (aliased_models e),
                       joins :=
                         dict_set (join ''.'' (cp @ [part])) (ra, Aliased (next_alias e) rm)
                           (joins e),
                       next_alias := Suc (next_alias e)\<rparr>) = Inr (a, e')"
        by (auto split: sum.splits)
      from "2.prems"(2) show ?thesis
        by (intro "2.IH"(1) [OF False None ga mc rec]) (simp add: distinct_dict_set)
    next
      case (Some al)
      with "2.prems"(1) False
      have rec: "resolve_parts sch al (cp @ [part]) rest ca e = Inr (a, e')"
        by simp
      show ?thesis by (rule "2.IH"(2) [OF False Some rec "2.prems"(2)])
    qed
  qed
qed

lemma sel_joins_fold:
  "sel_joins (fold (\<lambda>(key, (relation_attr, aliased_model)) s. join_stmt s aliased_model relation_attr) js stmt)
     = sel_joins stmt @ map (\<lambda>(key, (relation_attr, aliased_model)). (aliased_model, relation_attr)) js"
  by (induction js arbitrary: stmt) (auto simp: join_stmt_def)

lemma sel_joins_apply_joins:
  "sel_joins (apply_joins stmt js)
     = sel_joins stmt @ map (\<lambda>(key, (relation_attr, aliased_model)). (aliased_model, relation_attr)) js"
  by (simp add: apply_joins_def sel_joins_fold)


lemma take_Cons_pos: "0 < i \<Longrightarrow> take i (x # xs) = x # take (i - 1) xs"
  by (cases i) auto

lemma resolve_parts_registers:
  "resolve_parts sch cm cp parts ca e = Inr (a, e') \<Longrightarrow> 0 < i \<Longrightarrow> i < length parts \<Longrightarrow>
   map_of (aliased_models e') (join ''.'' (cp @ take i parts)) \<noteq> None"
proof (induction sch cm cp parts ca e arbitrary: i rule: resolve_parts.induct)
  case (1 sch cm cp ca e)
  then show ?case by simp
next
  case (2 sch cm cp part rest ca e)
  from "2.prems"(2,3) have rest: "rest \<noteq> []" by auto
  let ?key = "join ''.'' (cp @ [part])"
  have tail: "map_of (aliased_models e') (join ''.'' (cp @ take i (part # rest))) \<noteq> None"
    if rec: "resolve_parts sch cm' (cp @ [part]) rest ca e0 = Inr (a, e')"
      and in0: "map_of (aliased_models e0) ?key = Some cm'"
      and ih: "\<And>j. 0 < j \<Longrightarrow> j < length rest \<Longrightarrow>
               map_of (aliased_models e') (join ''.'' ((cp @ [part]) @ take j rest)) \<noteq> None"
    for cm' e0
  proof (cases "i = 1")
    case True
    have "map_of (aliased_models e') ?key = Some cm'"
      by (rule resolve_parts_keeps [OF rec in0])
    with True show ?thesis by simp
  next
    case False
    with "2.prems"(2,3) have j: "0 < i - 1" "i - 1 < length rest" by auto
    have tk: "take i (part # rest) = part # take (i - 1) rest"
      by (rule take_Cons_pos [OF "2.prems"(2)])
    have "map_of (aliased_models e') (join ''.'' ((cp @ [part]) @ take (i - 1) rest)) \<noteq> None"
      by (rule ih [OF j])
    then show ?thesis unfolding tk by simp
  qed
  show ?case
  proof (cases "map_of (aliased_models e) ?key")
    case None
    from "2.prems"(1) rest None obtain ra rm where
      ga: "getattr sch cm part = Inr ra" and mc: "mapper_class ra = Inr rm"
      and rec: "resolve_parts sch (Aliased (next_alias e) rm) (cp @ [part]) rest ca
                  (e\<lparr>aliased_models :=
                       dict_set (join ''.'' (cp @ [part])) (Aliased (next_alias e) rm)
                         (aliased_models e),
                     joins :=
                       dict_set (join ''.'' (cp @ [part])) (ra, Aliased (next_alias e) rm)
                         (joins e),
                     next_alias := Suc (next_alias e)\<rparr>) = Inr (a, e')"
      by (auto split: sum.splits)
    show ?thesis
    proof (rule tail [OF rec])
      show "map_of (aliased_models
                      (e\<lparr>aliased_models :=
                           dict_set (join ''.'' (cp @ [part])) (Aliased (next_alias e) rm)
                             (aliased_models e),
                         joins :=
                           dict_set (join ''.'' (cp @ [part])) (ra, Aliased (next_alias e) rm)
                             (joins e),
                         next_alias := Suc (next_alias e)\<rparr>)) ?key
            = Some (Aliased (next_alias e) rm)"
        by (simp add: map_of_dict_set)
    next
      fix j :: nat
      assume "0 < j" "j < length rest"
      then show "map_of (aliased_models e') (join ''.'' ((cp @ [part]) @ take j rest)) \<noteq> None"
        by (rule "2.IH"(1) [OF rest None ga mc rec])
    qed
  next
    case (Some al)
    with "2.prems"(1) rest
    have rec: "resolve_parts sch al (cp @ [part]) rest ca e = Inr (a, e')"
      by simp
    show ?thesis
    proof (rule tail [OF rec Some])
      fix j :: nat
      assume "0 < j" "j < length rest"
      then show "map_of (aliased_models e') (join ''.'' ((cp @ [part]) @ take j rest)) \<noteq> None"
        by (rule "2.IH"(2) [OF rest Some rec])
    qed
  qed
qed

lemma resolve_parts_last:
  "resolve_parts sch cm cp [part] ca e = Inr (a, e') \<Longrightarrow>
   e' = e \<and> (\<exists>m. sch (model_of cm) part = Some m
                  \<and> a = Some \<lparr>a_owner = cm, a_name = part, a_member = m\<rparr>)"
  by (auto simp: getattr_def split: sum.splits option.splits)

lemma resolve_parts_owner:
  "resolve_parts sch cm cp parts ca e = Inr (a, e') \<Longrightarrow> parts \<noteq> [] \<Longrightarrow>
   \<exists>a'. a = Some a' \<and> a_name a' = last parts
      \<and> (if length parts = 1 then a_owner a' = cm
          else map_of (aliased_models e') (join ''.'' (cp @ butlast parts)) = Some (a_owner a'))"
proof (induction sch cm cp parts ca e rule: resolve_parts.induct)
  case (1 sch cm cp ca e)
  then show ?case by simp
next
  case (2 sch cm cp part rest ca e)
  show ?case
  proof (cases "rest = []")
    case True
    from resolve_parts_last [OF "2.prems"(1) [unfolded True]] True
    show ?thesis by auto
  next
    case False
    let ?key = "join ''.'' (cp @ [part])"
    have len: "length (part # rest) \<noteq> 1" using False by (cases rest) auto
    have tail: "\<exists>a'. a = Some a' \<and> a_name a' = last (part # rest)
                  \<and> map_of (aliased_models e') (join ''.'' (cp @ butlast (part # rest)))
                       = Some (a_owner a')"
      if rec: "resolve_parts sch cm' (cp @ [part]) rest ca e0 = Inr (a, e')"
        and in0: "map_of (aliased_models e0) ?key = Some cm'"
        and ih: "\<exists>a'. a = Some a' \<and> a_name a' = last rest
                   \<and> (if length rest = 1 then a_owner a' = cm'
                       else map_of (aliased_models e')
                              (join ''.'' ((cp @ [part]) @ butlast rest)) = Some (a_owner a'))"
      for cm' e0
    proof -
      from ih obtain a' where a: "a = Some a'" and nm: "a_name a' = last rest"
        and own: "if length rest = 1 then a_owner a' = cm'
                  else map_of (aliased_models e') (join ''.'' ((cp @ [part]) @ butlast rest))
                         = Some (a_owner a')"
        by blast
      have kept: "map_of (aliased_models e') ?key = Some cm'"
        by (rule resolve_parts_keeps [OF rec in0])
      have bl: "butlast (part # rest) = part # butlast rest" using False by simp
      have "map_of (aliased_models e') (join ''.'' (cp @ part # butlast rest)) = Some (a_owner a')"
      proof (cases "length rest = 1")
        case True
        then have "butlast rest = []" by (cases rest) auto
        moreover from True own have "a_owner a' = cm'" by simp
        ultimately show ?thesis using kept by simp
      next
        case l: False
        with own have "map_of (aliased_models e') (join ''.'' ((cp @ [part]) @ butlast rest))
                         = Some (a_owner a')"
          by simp
        then show ?thesis by simp
      qed
      with a nm False bl show ?thesis by simp
    qed
    have "\<exists>a'. a = Some a' \<and> a_name a' = last (part # rest)
             \<and> map_of (aliased_models e') (join ''.'' (cp @ butlast (part # rest)))
                  = Some (a_owner a')"
    proof (cases "map_of (aliased_models e) ?key")
      case None
      from "2.prems"(1) False None obtain ra rm where
        ga: "getattr sch cm part = Inr ra" and mc: "mapper_class ra = Inr rm"
        and rec: "resolve_parts sch (Aliased (next_alias e) rm) (cp @ [part]) rest ca
                    (e\<lparr>aliased_models :=
                         dict_set (join ''.'' (cp @ [part])) (Aliased (next_alias e) rm)
                           (aliased_models e),
                       joins :=
                         dict_set (join ''.'' (cp @ [part])) (ra, Aliased (next_alias e) rm)
                           (joins e),
                       next_alias := Suc (next_alias e)\<rparr>) = Inr (a, e')"
        by (auto split: sum.splits)
      show ?thesis
      proof (rule tail [OF rec])
        show "map_of (aliased_models
                        (e\<lparr>aliased_models :=
                             dict_set (join ''.'' (cp @ [part])) (Aliased (next_alias e) rm)
                               (aliased_models e),
                           joins :=
                             dict_set (join ''.'' (cp @ [part])) (ra, Aliased (next_alias e) rm)
                               (joins e),
                           next_alias := Suc (next_alias e)\<rparr>)) ?key
              = Some (Aliased (next_alias e) rm)"
          by (simp add: map_of_dict_set)
      next
        show "\<exists>a'. a = Some a' \<and> a_name a' = last rest
                \<and> (if length rest = 1 then a_owner a' = Aliased (next_alias e) rm
                    else map_of (aliased_models e')
                           (join ''.'' ((cp @ [part]) @ butlast rest)) = Some (a_owner a'))"
          by (rule "2.IH"(1) [OF False None ga mc rec False])
      qed
    next
      case (Some al)
      with "2.prems"(1) False
      have rec: "resolve_parts sch al (cp @ [part]) rest ca e = Inr (a, e')"
        by simp
      show ?thesis
        by (rule tail [OF rec Some]) (rule "2.IH"(2) [OF False Some rec False])
    qed
    with len show ?thesis by simp
  qed
qed

lemma resolve_parts_unchanged:
  "resolve_parts sch cm cp parts ca e = Inr (a, e') \<Longrightarrow>
   (\<And>i. 0 < i \<Longrightarrow> i < length parts \<Longrightarrow>
        map_of (aliased_models e) (join ''.'' (cp @ take i parts)) \<noteq> None) \<Longrightarrow>
   e' = e"
proof (induction sch cm cp parts ca e rule: resolve_parts.induct)
  case (1 sch cm cp ca e)
  then show ?case by simp
next
  case (2 sch cm cp part rest ca e)
  show ?case
  proof (cases "rest = []")
    case True
    from resolve_parts_last [OF "2.prems"(1) [unfolded True]] show ?thesis by simp
  next
    case False
    then have one: "0 < (1::nat)" "1 < length (part # rest)" by (cases rest; simp)+
    have "map_of (aliased_models e) (join ''.'' (cp @ take 1 (part # rest))) \<noteq> None"
      by (rule "2.prems"(2) [OF one])
    then obtain al where Some: "map_of (aliased_models e) (join ''.'' (cp @ [part])) = Some al"
      by auto
    with "2.prems"(1) False
    have rec: "resolve_parts sch al (cp @ [part]) rest ca e = Inr (a, e')"
      by simp
    show ?thesis
    proof (rule "2.IH"(2) [OF False Some rec])
      fix i :: nat
      assume "0 < i" "i < length rest"
      then have "0 < Suc i" "Suc i < length (part # rest)" by auto
      then have "map_of (aliased_models e) (join ''.'' (cp @ take (Suc i) (part # rest))) \<noteq> None"
        by (rule "2.prems"(2))
      then show "map_of (aliased_models e) (join ''.'' ((cp @ [part]) @ take i rest)) \<noteq> None"
        by simp
    qed
  qed
qed

lemma resolve_parts_consistent:
  "resolve_parts sch cm cp parts ca e = Inr (a, e') \<Longrightarrow>
   (\<forall>k. map_option snd (map_of (joins e) k) = map_of (aliased_models e) k) \<Longrightarrow>
   (\<forall>k. map_option snd (map_of (joins e') k) = map_of (aliased_models e') k)"
proof (induction sch cm cp parts ca e rule: resolve_parts.induct)
  case (1 sch cm cp ca e)
  then show ?case by simp
next
  case (2 sch cm cp part rest ca e)
  show ?case
  proof (cases "rest = []")
    case True
    from resolve_parts_last [OF "2.prems"(1) [unfolded True]] "2.prems"(2)
    show ?thesis by simp
  next
    case False
    show ?thesis
    proof (cases "map_of (aliased_models e) (join ''.'' (cp @ [part]))")
      case None
      from "2.prems"(1) False None obtain ra rm where
        ga: "getattr sch cm part = Inr ra" and mc: "mapper_class ra = Inr rm"
        and rec: "resolve_parts sch (Aliased (next_alias e) rm) (cp @ [part]) rest ca
                    (e\<lparr>aliased_models :=
                         dict_set (join ''.'' (cp @ [part])) (Aliased (next_alias e) rm)
                           (aliased_models e),
                       joins :=
                         dict_set (join ''.'' (cp @ [part])) (ra, Aliased (next_alias e) rm)
                           (joins e),
                       next_alias := Suc (next_alias e)\<rparr>) = Inr (a, e')"
        by (auto split: sum.splits)
      from "2.prems"(2) show ?thesis
        by (intro "2.IH"(1) [OF False None ga mc rec]) (simp add: map_of_dict_set)
    next
      case (Some al)
      with "2.prems"(1) False
      have rec: "resolve_parts sch al (cp @ [part]) rest ca e = Inr (a, e')"
        by simp
      show ?thesis by (rule "2.IH"(2) [OF False Some rec "2.prems"(2)])
    qed
  qed
qed

lemma butlast_take_Suc: "Suc i = length xs \<Longrightarrow> butlast xs = take i xs"
proof -
  assume "Suc i = length xs"
  then have "length xs - 1 = i" by arith
  then show ?thesis by (simp add: butlast_conv_take)
qed

text \<open>
  C2, within one pair of dictionaries. The alias of a relation prefix is kept in
  \<open>aliased_models\<close> under the prefix itself, the segments joined by dots. After a path
  \<open>p\<close> has been resolved, every later reference \<open>q\<close> resolved against the same
  dictionaries (possibly grown in between) that shares the first \<open>i\<close> relation segments
  with \<open>p\<close> finds the one alias registered for that prefix: the alias is the same before
  and after, an attribute directly below the prefix is an attribute of that alias, and
  a path all of whose relation prefixes are already known adds no alias and no join.
  In particular the same path resolves again to the same attribute with nothing
  added. Resolution never replaces an alias, keeps the keys of both dictionaries
  distinct and the alias of a join equal to the alias of its prefix, and \<open>apply_joins\<close>
  adds one join for each entry of \<open>joins\<close>.
\<close>

theorem shared_prefix_one_alias:
  assumes r1: "resolve_column sch model p e = Inr (a, e1)"
    and ext: "\<forall>k v. map_of (aliased_models e1) k = Some v \<longrightarrow> map_of (aliased_models e1') k = Some v"
    and r2: "resolve_column sch model q e1' = Inr (b, e2)"
    and i: "0 < i" "i < length (split_on CHR ''.'' p)" "i < length (split_on CHR ''.'' q)"
           "take i (split_on CHR ''.'' q) = take i (split_on CHR ''.'' p)"
  shows "(\<exists>al. map_of (aliased_models e1) (join ''.'' (take i (split_on CHR ''.'' p))) = Some al
            \<and> map_of (aliased_models e2) (join ''.'' (take i (split_on CHR ''.'' p))) = Some al
            \<and> (Suc i = length (split_on CHR ''.'' p) \<longrightarrow> (\<exists>a'. a = Some a' \<and> a_owner a' = al))
            \<and> (Suc i = length (split_on CHR ''.'' q) \<longrightarrow>
                  (\<exists>b'. b = Some b' \<and> a_owner b' = al) \<and> e2 = e1'))
       \<and> resolve_column sch model p e1' = Inr (a, e1')
       \<and> (\<forall>k v. map_of (aliased_models e) k = Some v \<longrightarrow> map_of (aliased_models e1) k = Some v)
       \<and> (distinct (map fst (aliased_models e)) \<and> distinct (map fst (joins e)) \<longrightarrow>
            distinct (map fst (aliased_models e1)) \<and> distinct (map fst (joins e1)))
       \<and> ((\<forall>k. map_option snd (map_of (joins e) k) = map_of (aliased_models e) k) \<longrightarrow>
            (\<forall>k. map_option snd (map_of (joins e1) k) = map_of (aliased_models e1) k))
       \<and> sel_joins (apply_joins stmt (joins e1))
            = sel_joins stmt
                @ map (\<lambda>(key, (relation_attr, aliased_model)). (aliased_model, relation_attr))
                    (joins e1)"
proof -
  let ?P = "split_on CHR ''.'' p" and ?Q = "split_on CHR ''.'' q"
  let ?key = "join ''.'' (take i ?P)"
  from r1 have p1: "resolve_parts sch (Mapped model) [] ?P None e = Inr (a, e1)"
    by (simp add: resolve_column_def)
  from r2 have p2: "resolve_parts sch (Mapped model) [] ?Q None e1' = Inr (b, e2)"
    by (simp add: resolve_column_def)
  have "map_of (aliased_models e1) (join ''.'' ([] @ take i ?P)) \<noteq> None"
    by (rule resolve_parts_registers [OF p1 i(1) i(2)])
  then obtain al where al1: "map_of (aliased_models e1) ?key = Some al" by auto
  with ext have al1': "map_of (aliased_models e1') ?key = Some al" by blast
  have al2: "map_of (aliased_models e2) ?key = Some al"
    by (rule resolve_parts_keeps [OF p2 al1'])
  have ownP: "\<exists>a'. a = Some a' \<and> a_owner a' = al" if "Suc i = length ?P"
  proof -
    from that i(1) have ne: "?P \<noteq> []" and l: "length ?P \<noteq> 1" by auto
    have bl: "butlast ?P = take i ?P" by (rule butlast_take_Suc [OF that])
    from resolve_parts_owner [OF p1 ne] l bl al1 show ?thesis by auto
  qed
  have ownQ: "(\<exists>b'. b = Some b' \<and> a_owner b' = al) \<and> e2 = e1'" if "Suc i = length ?Q"
  proof -
    from that i(1) have ne: "?Q \<noteq> []" and l: "length ?Q \<noteq> 1" by auto
    have bl: "butlast ?Q = take i ?P"
      using butlast_take_Suc [OF that] i(4) by simp
    from resolve_parts_owner [OF p2 ne] l bl al2 have o: "\<exists>b'. b = Some b' \<and> a_owner b' = al"
      by auto
    have "e2 = e1'"
    proof (rule resolve_parts_unchanged [OF p2])
      fix j :: nat
      assume j: "0 < j" "j < length ?Q"
      with that have ji: "j \<le> i" by simp
      with i(2) have jP: "j < length ?P" by simp
      from ji have "take j ?Q = take j (take i ?Q)" by (simp add: min_absorb1)
      also from i(4) have "\<dots> = take j (take i ?P)" by simp
      also from ji have "\<dots> = take j ?P" by (simp add: min_absorb1)
      finally have tk: "take j ?Q = take j ?P" .
      have "map_of (aliased_models e1) (join ''.'' ([] @ take j ?P)) \<noteq> None"
        by (rule resolve_parts_registers [OF p1 j(1) jP])
      with ext have "map_of (aliased_models e1') (join ''.'' ([] @ take j ?P)) \<noteq> None" by auto
      with tk show "map_of (aliased_models e1') (join ''.'' ([] @ take j ?Q)) \<noteq> None" by simp
    qed
    with o show ?thesis by simp
  qed
  have "resolve_parts sch (Mapped model) [] ?P None e1' = Inr (a, e1')"
    by (rule resolve_parts_again [OF p1 ext])
  then have again: "resolve_column sch model p e1' = Inr (a, e1')"
    by (simp add: resolve_column_def)
  have keeps: "\<forall>k v. map_of (aliased_models e) k = Some v \<longrightarrow> map_of (aliased_models e1) k = Some v"
    using resolve_parts_keeps [OF p1] by blast
  have dist: "distinct (map fst (aliased_models e)) \<and> distinct (map fst (joins e)) \<longrightarrow>
            distinct (map fst (aliased_models e1)) \<and> distinct (map fst (joins e1))"
    using resolve_parts_distinct [OF p1] by blast
  have cons: "(\<forall>k. map_option snd (map_of (joins e) k) = map_of (aliased_models e) k) \<longrightarrow>
            (\<forall>k. map_option snd (map_of (joins e1) k) = map_of (aliased_models e1) k)"
    using resolve_parts_consistent [OF p1] by blast
  have js: "sel_joins (apply_joins stmt (joins e1))
            = sel_joins stmt
                @ map (\<lambda>(key, (relation_attr, aliased_model)). (aliased_model, relation_attr))
                    (joins e1)"
    by (rule sel_joins_apply_joins)
  have first: "\<exists>al. map_of (aliased_models e1) ?key = Some al
            \<and> map_of (aliased_models e2) ?key = Some al
            \<and> (Suc i = length ?P \<longrightarrow> (\<exists>a'. a = Some a' \<and> a_owner a' = al))
            \<and> (Suc i = length ?Q \<longrightarrow> (\<exists>b'. b = Some b' \<and> a_owner b' = al) \<and> e2 = e1')"
    using al1 al2 ownP ownQ by blast
  from first again keeps dist cons js show ?thesis by (intro conjI)
qed

theorem shared_prefix_one_alias_witness:
  "resolve_column library ''Book'' ''author.country.name'' (empty_env 0)
     = Inr (Some \<lparr>a_owner = Aliased 1 ''Country'', a_name = ''name'', a_member = Column String\<rparr>,
            author_country_env)
   \<and> resolve_column library ''Book'' ''author.name'' author_country_env
     = Inr (Some \<lparr>a_owner = Aliased 0 ''Author'', a_name = ''name'', a_member = Column String\<rparr>,
            author_country_env)
   \<and> take 1 (split_on CHR ''.'' ''author.name'') = take 1 (split_on CHR ''.'' ''author.country.name'')
   \<and> join ''.'' (take 1 (split_on CHR ''.'' ''author.country.name'')) = ''author''
   \<and> map_of (aliased_models author_country_env) ''author'' = Some (Aliased 0 ''Author'')
   \<and> resolve_column library ''Book'' ''author.country.name'' author_country_env
     = Inr (Some \<lparr>a_owner = Aliased 1 ''Country'', a_name = ''name'', a_member = Column String\<rparr>,
            author_country_env)"
proof -
  have r1: "resolve_column library ''Book'' ''author.country.name'' (empty_env 0)
     = Inr (Some \<lparr>a_owner = Aliased 1 ''Country'', a_name = ''name'', a_member = Column String\<rparr>,
            author_country_env)"
    by code_simp
  have r2: "resolve_column library ''Book'' ''author.name'' author_country_env
     = Inr (Some \<lparr>a_owner = Aliased 0 ''Author'', a_name = ''name'', a_member = Column String\<rparr>,
            author_country_env)"
    by code_simp
  have ext: "\<forall>k v. map_of (aliased_models author_country_env) k = Some v
                \<longrightarrow> map_of (aliased_models author_country_env) k = Some v"
    by simp
  have i: "0 < (1::nat)" "1 < length (split_on CHR ''.'' ''author.country.name'')"
          "1 < length (split_on CHR ''.'' ''author.name'')"
          "take 1 (split_on CHR ''.'' ''author.name'')
             = take 1 (split_on CHR ''.'' ''author.country.name'')"
    by simp_all
  have key: "join ''.'' (take 1 (split_on CHR ''.'' ''author.country.name'')) = ''author''"
    by simp
  note inst = shared_prefix_one_alias [OF r1 ext r2 i]
  from inst [THEN conjunct1] key
  obtain al where al: "map_of (aliased_models author_country_env) ''author'' = Some al"
    and own: "Suc 1 = length (split_on CHR ''.'' ''author.name'') \<longrightarrow>
                (\<exists>b'. Some \<lparr>a_owner = Aliased 0 ''Author'', a_name = ''name'',
                             a_member = Column String\<rparr> = Some b' \<and> a_owner b' = al)
                \<and> author_country_env = author_country_env"
    by auto
  have "Suc 1 = length (split_on CHR ''.'' ''author.name'')"
    by simp
  with own have "al = Aliased 0 ''Author''" by auto
  with al have reg: "map_of (aliased_models author_country_env) ''author'' = Some (Aliased 0 ''Author'')"
    by simp
  from r1 r2 i(4) key reg inst [THEN conjunct2, THEN conjunct1] show ?thesis
    by (intro conjI)
qed

text \<open>
  C2 across the phases. The search phase and every order key start from empty
  dictionaries: with a search on \<open>author.name\<close> and two order keys on the same column,
  the prefix \<open>author\<close> gets the alias 0 for the search, the alias 1 for the first order
  key and the alias 2 for the second, and the executed statement joins the relation
  three times.
\<close>

theorem process_aliases_prefix_again:
  "process echo_backend library ''Book'' None
     (DataTablesRequest_init Omitted Omitted Omitted (Given (Some [(''value'', ''x'')]))
        (Given (Some [[(''column'', PInt 0), (''dir'', PStr ''asc'')],
                      [(''column'', PInt 0), (''dir'', PStr ''desc'')]]))
        (Given (Some [[(''name'', PStr ''author.name''), (''searchable'', PBool True)]])) Omitted) 0
   = Inr \<lparr>r_draw = Some 1, recordsTotal = 3, recordsFiltered = 3,
          data =
            [\<lparr>sel_from = ''Book'',
              sel_joins =
                [(Aliased 0 ''Author'',
                  \<lparr>a_owner = Mapped ''Book'', a_name = ''author'', a_member = Relation ''Author''\<rparr>),
                 (Aliased 1 ''Author'',
                  \<lparr>a_owner = Mapped ''Book'', a_name = ''author'', a_member = Relation ''Author''\<rparr>),
                 (Aliased 2 ''Author'',
                  \<lparr>a_owner = Mapped ''Book'', a_name = ''author'', a_member = Relation ''Author''\<rparr>)],
              sel_where =
                [Or [ILike (ColE \<lparr>a_owner = Aliased 0 ''Author'', a_name = ''name'',
                                   a_member = Column String\<rparr>) ''%x%'']],
              sel_order_by =
                [Asc \<lparr>a_owner = Aliased 1 ''Author'', a_name = ''name'', a_member = Column String\<rparr>,
                 Desc \<lparr>a_owner = Aliased 2 ''Author'', a_name = ''name'', a_member = Column String\<rparr>],
              sel_offset = Some 0, sel_limit = Some 10\<rparr>]\<rparr>"
  by code_simp

section \<open>Paths that resolve and paths that do not\<close>

lemma split_on_free: "c \<notin> set p \<Longrightarrow> split_on c p = [p]"
  by (induction p) auto

lemma split_on_append: "c \<notin> set p \<Longrightarrow> split_on c (p @ c # s) = p # split_on c s"
  by (induction p) auto

lemma split_on_join:
  "ps \<noteq> [] \<Longrightarrow> \<forall>p\<in>set ps. c \<notin> set p \<Longrightarrow> split_on c (join [c] ps) = ps"
proof (induction "[c]" ps rule: join.induct)
  case 1
  then show ?case by simp
next
  case (2 p)
  then show ?case by (simp add: split_on_free)
next
  case (3 p q ps)
  then have "split_on c (join [c] (q # ps)) = q # ps" by simp
  moreover from 3 have "c \<notin> set p" by simp
  ultimately show ?case by (simp add: split_on_append)
qed

lemma split_on_parts_free: "p \<in> set (split_on c s) \<Longrightarrow> c \<notin> set p"
proof (induction s arbitrary: p)
  case Nil
  then show ?case by simp
next
  case (Cons x s)
  show ?case
  proof (cases "x = c")
    case True
    with Cons show ?thesis by auto
  next
    case False
    obtain q qs where sp: "split_on c s = q # qs"
      using split_on_nonempty [of c s] by (cases "split_on c s") auto
    with Cons.prems False have "p = x # q \<or> p \<in> set qs" by simp
    then show ?thesis
    proof
      assume "p = x # q"
      moreover from sp have "c \<notin> set q" by (intro Cons.IH) simp
      ultimately show ?thesis using False by auto
    next
      assume "p \<in> set qs"
      with sp show ?thesis by (intro Cons.IH) simp
    qed
  qed
qed

lemma rel_target_append:
  "rel_target sch m (xs @ ys) =
     (case rel_target sch m xs of None \<Rightarrow> None | Some m' \<Rightarrow> rel_target sch m' ys)"
  by (induction xs arbitrary: m) (auto split: option.splits member.splits)

lemma rel_target_snoc:
  "rel_target sch m cp = Some m1 \<Longrightarrow>
   rel_target sch m (cp @ [part]) = (case sch m1 part of Some (Relation m') \<Rightarrow> Some m' | _ \<Rightarrow> None)"
  by (simp add: rel_target_append split: option.splits member.splits)

text \<open>
  The dictionaries are sound for a schema and a root model when every prefix they hold
  leads, through relations of the schema, to the model of the alias kept for it. From
  sound dictionaries, at a point of the loop where the current model is the one the path
  so far leads to, the loop succeeds exactly on the known paths, leaves sound
  dictionaries, and raises \<open>AttributeError\<close> on every other path.
\<close>

lemma resolve_parts_known:
  "(\<forall>k al. map_of (aliased_models e) k = Some al \<longrightarrow>
           rel_target sch model (split_on CHR ''.'' k) = Some (model_of al)) \<Longrightarrow>
   rel_target sch model cp = Some (model_of cm) \<Longrightarrow>
   (\<forall>p\<in>set (cp @ parts). CHR ''.'' \<notin> set p) \<Longrightarrow>
   parts \<noteq> [] \<Longrightarrow>
   (known_path sch (model_of cm) parts \<longrightarrow>
      (\<exists>a e'. resolve_parts sch cm cp parts ca e = Inr (Some a, e')
          \<and> (\<forall>k al. map_of (aliased_models e') k = Some al \<longrightarrow>
                 rel_target sch model (split_on CHR ''.'' k) = Some (model_of al))))
   \<and> (\<not> known_path sch (model_of cm) parts \<longrightarrow>
         resolve_parts sch cm cp parts ca e = Inl AttributeError)"
proof (induction sch cm cp parts ca e rule: resolve_parts.induct)
  case (1 sch cm cp ca e)
  then show ?case by simp
next
  case (2 sch cm cp part rest ca e)
  note inv = "2.prems"(1) and cm = "2.prems"(2) and free = "2.prems"(3)
  show ?case
  proof (cases "rest = []")
    case True
    with inv show ?thesis
      by (auto simp: getattr_def split: option.splits)
  next
    case False
    let ?key = "join ''.'' (cp @ [part])"
    from free have free1: "\<forall>p\<in>set (cp @ [part]). CHR ''.'' \<notin> set p"
      and free2: "\<forall>p\<in>set ((cp @ [part]) @ rest). CHR ''.'' \<notin> set p"
      by auto
    have sk: "split_on CHR ''.'' ?key = cp @ [part]"
      using split_on_join [of "cp @ [part]" "CHR ''.''"] free1 by simp
    have tgt: "rel_target sch model (cp @ [part])
                 = (case sch (model_of cm) part of Some (Relation m') \<Rightarrow> Some m' | _ \<Rightarrow> None)"
      by (rule rel_target_snoc [OF cm])
    show ?thesis
    proof (cases "map_of (aliased_models e) ?key")
      case (Some al)
      from inv Some sk have "rel_target sch model (cp @ [part]) = Some (model_of al)"
        by fastforce
      with tgt have rel: "sch (model_of cm) part = Some (Relation (model_of al))"
        by (auto split: option.splits member.splits)
      have cm': "rel_target sch model (cp @ [part]) = Some (model_of al)"
        using tgt rel by simp
      have kp: "known_path sch (model_of cm) (part # rest) = known_path sch (model_of al) rest"
        using False rel by simp
      have step: "resolve_parts sch cm cp (part # rest) ca e
                    = resolve_parts sch al (cp @ [part]) rest ca e"
        using False Some by simp
      from "2.IH"(2) [OF False Some inv cm' free2 False] show ?thesis
        unfolding kp step .
    next
      case None
      show ?thesis
      proof (cases "sch (model_of cm) part")
        case n: None
        with False None show ?thesis by (simp add: getattr_def)
      next
        case (Some mem)
        show ?thesis
        proof (cases mem)
          case (Relation m')
          let ?al = "Aliased (next_alias e) m'"
          let ?ra = "\<lparr>a_owner = cm, a_name = part, a_member = Relation m'\<rparr>"
          let ?e = "e\<lparr>aliased_models := dict_set ?key ?al (aliased_models e),
                      joins := dict_set ?key (?ra, ?al) (joins e),
                      next_alias := Suc (next_alias e)\<rparr>"
          have ga: "getattr sch cm part = Inr ?ra"
            using Some Relation by (simp add: getattr_def)
          have mc: "mapper_class ?ra = Inr m'"
            by (simp add: mapper_class_def)
          have cm': "rel_target sch model (cp @ [part]) = Some (model_of ?al)"
            using tgt Some Relation by simp
          have inv': "\<forall>k al. map_of (aliased_models ?e) k = Some al \<longrightarrow>
                        rel_target sch model (split_on CHR ''.'' k) = Some (model_of al)"
          proof (intro allI impI)
            fix k al
            assume "map_of (aliased_models ?e) k = Some al"
            then have "(k = ?key \<and> al = ?al) \<or> map_of (aliased_models e) k = Some al"
              by (auto simp: map_of_dict_set split: if_splits)
            then show "rel_target sch model (split_on CHR ''.'' k) = Some (model_of al)"
            proof
              assume "k = ?key \<and> al = ?al"
              with sk cm' show ?thesis by simp
            next
              assume "map_of (aliased_models e) k = Some al"
              with inv show ?thesis by blast
            qed
          qed
          have kp: "known_path sch (model_of cm) (part # rest) = known_path sch (model_of ?al) rest"
            using False Some Relation by simp
          have step: "resolve_parts sch cm cp (part # rest) ca e
                        = resolve_parts sch ?al (cp @ [part]) rest ca ?e"
            using False None ga mc by simp
          from "2.IH"(1) [OF False None ga mc inv' cm' free2 False] show ?thesis
            unfolding kp step .
        next
          case (Column t)
          with False None Some show ?thesis
            by (simp add: getattr_def mapper_class_def)
        next
          case Other
          with False None Some show ?thesis
            by (simp add: getattr_def mapper_class_def)
        qed
      qed
    qed
  qed
qed

lemma resolve_root_known:
  assumes inv: "\<forall>k al. map_of (aliased_models e) k = Some al \<longrightarrow>
                  rel_target sch model (split_on CHR ''.'' k) = Some (model_of al)"
  shows "(known_path sch model (split_on CHR ''.'' path) \<longrightarrow>
            (\<exists>a e'. resolve_parts sch (Mapped model) [] (split_on CHR ''.'' path) None e
                       = Inr (Some a, e')
                \<and> (\<forall>k al. map_of (aliased_models e') k = Some al \<longrightarrow>
                       rel_target sch model (split_on CHR ''.'' k) = Some (model_of al))))
       \<and> (\<not> known_path sch model (split_on CHR ''.'' path) \<longrightarrow>
            resolve_parts sch (Mapped model) [] (split_on CHR ''.'' path) None e
              = Inl AttributeError)"
proof -
  have cm: "rel_target sch model [] = Some (model_of (Mapped model))" by simp
  have free: "\<forall>p\<in>set ([] @ split_on CHR ''.'' path). CHR ''.'' \<notin> set p"
    by (auto dest: split_on_parts_free)
  from resolve_parts_known [OF inv cm free split_on_nonempty, of None] show ?thesis
    by simp
qed

lemma empty_env_sound:
  "\<forall>k al. map_of (aliased_models (empty_env n)) k = Some al \<longrightarrow>
      rel_target sch model (split_on CHR ''.'' k) = Some (model_of al)"
  by (simp add: empty_env_def)

lemma search_column_known:
  assumes inv: "\<forall>k al. map_of (aliased_models e) k = Some al \<longrightarrow>
                  rel_target sch model (split_on CHR ''.'' k) = Some (model_of al)"
  shows "(known_path sch model (split_on CHR ''.'' path) \<longrightarrow>
            (\<exists>conds' e'. search_column sch model sv (PStr path) conds e = Inr (conds', e')
                \<and> (\<forall>k al. map_of (aliased_models e') k = Some al \<longrightarrow>
                       rel_target sch model (split_on CHR ''.'' k) = Some (model_of al))))
       \<and> (\<not> known_path sch model (split_on CHR ''.'' path) \<longrightarrow>
            search_column sch model sv (PStr path) conds e = Inl AttributeError)"
proof (cases "known_path sch model (split_on CHR ''.'' path)")
  case True
  with resolve_root_known [OF inv, of path] obtain a e' where
    r: "resolve_parts sch (Mapped model) [] (split_on CHR ''.'' path) None e = Inr (Some a, e')"
    and inv': "\<forall>k al. map_of (aliased_models e') k = Some al \<longrightarrow>
                 rel_target sch model (split_on CHR ''.'' k) = Some (model_of al)"
    by blast
  from r have "\<exists>conds'. search_column sch model sv (PStr path) conds e = Inr (conds', e')"
    by (simp add: search_column_def split: sum.splits)
  with inv' True show ?thesis by blast
next
  case False
  with resolve_root_known [OF inv, of path]
  have "resolve_parts sch (Mapped model) [] (split_on CHR ''.'' path) None e = Inl AttributeError"
    by blast
  with False show ?thesis by (simp add: search_column_def)
qed

lemma search_columns_bad_path:
  "(\<forall>k al. map_of (aliased_models e) k = Some al \<longrightarrow>
           rel_target sch model (split_on CHR ''.'' k) = Some (model_of al)) \<Longrightarrow>
   (\<forall>col\<in>set pre. \<not> truthy (dict_get col ''searchable'')
        \<or> (\<exists>p. map_of col ''name'' = Some (PStr p) \<and> known_path sch model (split_on CHR ''.'' p))) \<Longrightarrow>
   truthy (dict_get c ''searchable'') \<Longrightarrow>
   map_of c ''name'' = Some (PStr path) \<Longrightarrow>
   \<not> known_path sch model (split_on CHR ''.'' path) \<Longrightarrow>
   search_columns sch model sv (pre @ c # post) conds e
     = Inl (InvalidColumnError ''Invalid column path: '' (PStr path))"
proof (induction pre arbitrary: conds e)
  case Nil
  from search_column_known [OF Nil.prems(1), of path sv conds] Nil.prems(5)
  have "search_column sch model sv (PStr path) conds e = Inl AttributeError" by blast
  with Nil.prems(3,4) show ?case by simp
next
  case (Cons col pre)
  show ?case
  proof (cases "truthy (dict_get col ''searchable'')")
    case False
    with Cons show ?thesis by simp
  next
    case True
    with Cons.prems(2) obtain p where nm: "map_of col ''name'' = Some (PStr p)"
      and kp: "known_path sch model (split_on CHR ''.'' p)"
      by auto
    from search_column_known [OF Cons.prems(1), of p sv conds] kp obtain conds' e' where
      sc: "search_column sch model sv (PStr p) conds e = Inr (conds', e')"
      and inv': "\<forall>k al. map_of (aliased_models e') k = Some al \<longrightarrow>
                   rel_target sch model (split_on CHR ''.'' k) = Some (model_of al)"
      by blast
    from Cons.prems(2) have pre: "\<forall>col\<in>set pre. \<not> truthy (dict_get col ''searchable'')
        \<or> (\<exists>p. map_of col ''name'' = Some (PStr p) \<and> known_path sch model (split_on CHR ''.'' p))"
      by simp
    have "search_columns sch model sv (pre @ c # post) conds' e'
            = Inl (InvalidColumnError ''Invalid column path: '' (PStr path))"
      by (rule Cons.IH [OF inv' pre Cons.prems(3) Cons.prems(4) Cons.prems(5)])
    with True nm sc show ?thesis by simp
  qed
qed

lemma global_filter_loop_bad_path:
  "(\<forall>k al. map_of (aliased_models e) k = Some al \<longrightarrow>
           rel_target sch model (split_on CHR ''.'' k) = Some (model_of al)) \<Longrightarrow>
   (\<forall>col\<in>set pre. \<not> searchable col \<or> known_path sch model (split_on CHR ''.'' (name col))) \<Longrightarrow>
   searchable c \<Longrightarrow>
   \<not> known_path sch model (split_on CHR ''.'' (name c)) \<Longrightarrow>
   global_filter_loop sch model sv (pre @ c # post) conds e
     = Inl (InvalidColumnError ''Invalid column path: '' (PStr (name c)))"
proof (induction pre arbitrary: conds e)
  case Nil
  from resolve_root_known [OF Nil.prems(1), of "name c"] Nil.prems(4)
  have "resolve_column sch model (name c) e = Inl AttributeError"
    by (simp add: resolve_column_def)
  with Nil.prems(3) show ?case by simp
next
  case (Cons col pre)
  show ?case
  proof (cases "searchable col")
    case False
    with Cons show ?thesis by simp
  next
    case True
    with Cons.prems(2) have kp: "known_path sch model (split_on CHR ''.'' (name col))"
      by auto
    from resolve_root_known [OF Cons.prems(1), of "name col"] kp obtain a e' where
      r: "resolve_column sch model (name col) e = Inr (Some a, e')"
      and inv': "\<forall>k al. map_of (aliased_models e') k = Some al \<longrightarrow>
                   rel_target sch model (split_on CHR ''.'' k) = Some (model_of al)"
      unfolding resolve_column_def by blast
    from Cons.prems(2)
    have pre: "\<forall>col\<in>set pre. \<not> searchable col \<or> known_path sch model (split_on CHR ''.'' (name col))"
      by simp
    have ih: "global_filter_loop sch model sv (pre @ c # post) cs e'
            = Inl (InvalidColumnError ''Invalid column path: '' (PStr (name c)))" for cs
      by (rule Cons.IH [OF inv' pre Cons.prems(3) Cons.prems(4)])
    from True r ih show ?thesis by (simp split: option.splits)
  qed
qed

section \<open>Order keys\<close>

lemma apply_ordering_loop_append:
  "apply_ordering_loop sch model cols (pre @ post) stmt n =
     (case apply_ordering_loop sch model cols pre stmt n of
        Inl x \<Rightarrow> Inl x
      | Inr (stmt', n') \<Rightarrow> apply_ordering_loop sch model cols post stmt' n')"
  by (induction pre arbitrary: stmt n) (auto split: sum.splits)

text \<open>
  C7. Take an order key of the request whose column index finds a column whose name is
  a path, and whose direction is neither \<open>asc\<close> nor \<open>desc\<close>.
  \<^item> If the keys before it have been applied and the path resolves, \<open>apply_ordering\<close>
    raises \<open>ConfigurationError\<close>, and so does \<open>process\<close> once the total count, the
    search filter and the filtered count have succeeded.
  \<^item> If the path is a known path of the schema, then whatever the earlier stages and
    keys do, \<open>apply_ordering\<close> returns no statement and \<open>process\<close> returns no response:
    no ordering is ever applied for that key.
\<close>

theorem bad_direction_aborts:
  assumes ord: "order request_data = Some (pre @ key # post)"
    and idx: "map_of key ''column'' = Some col_index" "int_of col_index = Inr i"
    and col: "columns request_data = Some cols" "py_index cols i = Some col"
             "map_of col ''name'' = Some (PStr path)"
    and dir: "map_of key ''dir'' = Some direction"
             "direction \<noteq> PStr ''asc''" "direction \<noteq> PStr ''desc''"
  shows "(apply_ordering_loop sch model (columns request_data) pre stmt1 n1 = Inr (stmt2, n2) \<longrightarrow>
          resolve_parts sch (Mapped model) [] (split_on CHR ''.'' path) None (empty_env n2)
            = Inr (a, e) \<longrightarrow>
            apply_ordering sch model stmt1 request_data n1
              = Inl (ConfigurationError direction_message)
          \<and> (get_total_records db_backend (get_query model base_statment) = Inr t \<longrightarrow>
             get_filtered_query sch model (get_query model base_statment) request_data n
               = Inr (stmt1, n1) \<longrightarrow>
             get_filtered_records db_backend stmt1 = Inr f \<longrightarrow>
             process db_backend sch model base_statment request_data n
               = Inl (ConfigurationError direction_message)))
       \<and> (known_path sch model (split_on CHR ''.'' path) \<longrightarrow>
            (\<forall>stmt m res. apply_ordering sch model stmt request_data m \<noteq> Inr res)
          \<and> (\<forall>resp. process db_backend sch model base_statment request_data n \<noteq> Inr resp))"
proof -
  have step: "apply_ordering_step sch model (columns request_data) key s m
                = Inl (ConfigurationError direction_message)"
    if "resolve_parts sch (Mapped model) [] (split_on CHR ''.'' path) None (empty_env m)
          = Inr (b, e')" for s m b e'
  proof -
    have "apply_ordering_try sch model (PStr path) direction s m
               = Inl (ConfigurationError direction_message)"
      using that dir(2,3) by (simp add: apply_ordering_try_def Let_def)
    with idx col dir(1) show ?thesis by (simp add: apply_ordering_step_def)
  qed
  have reached: "apply_ordering sch model stmt1 request_data n1
              = Inl (ConfigurationError direction_message)
          \<and> (get_total_records db_backend (get_query model base_statment) = Inr t \<longrightarrow>
             get_filtered_query sch model (get_query model base_statment) request_data n
               = Inr (stmt1, n1) \<longrightarrow>
             get_filtered_records db_backend stmt1 = Inr f \<longrightarrow>
             process db_backend sch model base_statment request_data n
               = Inl (ConfigurationError direction_message))"
    if pre: "apply_ordering_loop sch model (columns request_data) pre stmt1 n1 = Inr (stmt2, n2)"
      and res: "resolve_parts sch (Mapped model) [] (split_on CHR ''.'' path) None (empty_env n2)
                  = Inr (a, e)"
  proof -
    have "apply_ordering_loop sch model (columns request_data) (pre @ key # post) stmt1 n1
            = Inl (ConfigurationError direction_message)"
      using pre step [OF res] by (simp add: apply_ordering_loop_append)
    with ord have "apply_ordering sch model stmt1 request_data n1
                     = Inl (ConfigurationError direction_message)"
      by (simp add: apply_ordering_def)
    then show ?thesis by (simp add: process_def Let_def)
  qed
  have never: "(\<forall>stmt m res. apply_ordering sch model stmt request_data m \<noteq> Inr res)
          \<and> (\<forall>resp. process db_backend sch model base_statment request_data n \<noteq> Inr resp)"
    if kp: "known_path sch model (split_on CHR ''.'' path)"
  proof -
    have st: "apply_ordering_step sch model (columns request_data) key s m
                = Inl (ConfigurationError direction_message)" for s m
    proof -
      from resolve_root_known [OF empty_env_sound, of sch model path m] kp obtain b e' where
        "resolve_parts sch (Mapped model) [] (split_on CHR ''.'' path) None (empty_env m)
           = Inr (Some b, e')"
        by blast
      then show ?thesis by (rule step)
    qed
    have lp: "apply_ordering_loop sch model (columns request_data) (pre @ key # post) s m \<noteq> Inr res"
      for s m res
      by (simp add: apply_ordering_loop_append st split: sum.splits prod.splits)
    have ao: "apply_ordering sch model s request_data m \<noteq> Inr res" for s m res
      using ord lp [of s m res] by (simp add: apply_ordering_def)
    have "process db_backend sch model base_statment request_data n \<noteq> Inr resp" for resp
      using ao by (auto simp: process_def Let_def split: sum.splits prod.splits)
    with ao show ?thesis by blast
  qed
  from reached never show ?thesis by blast
qed

theorem bad_direction_aborts_witness:
  "process echo_backend library ''Book'' None
     (DataTablesRequest_init Omitted Omitted Omitted Omitted
        (Given (Some [[(''column'', PInt 1), (''dir'', PStr ''desc'')],
                      [(''column'', PInt 0), (''dir'', PStr ''up'')]]))
        (Given (Some [[(''name'', PStr ''author.name'')], [(''name'', PStr ''pages'')]])) Omitted) 0
   = Inl (ConfigurationError direction_message)
   \<and> known_path library ''Book'' (split_on CHR ''.'' ''author.name'')
   \<and> (\<forall>resp. process echo_backend library ''Book'' None
        (DataTablesRequest_init Omitted Omitted Omitted Omitted
           (Given (Some [[(''column'', PInt 1), (''dir'', PStr ''desc'')],
                         [(''column'', PInt 0), (''dir'', PStr ''up'')]]))
           (Given (Some [[(''name'', PStr ''author.name'')], [(''name'', PStr ''pages'')]]))
           Omitted) 0 \<noteq> Inr resp)"
proof -
  let ?cols = "[[(''name'', PStr ''author.name'')], [(''name'', PStr ''pages'')]]"
  let ?k1 = "[(''column'', PInt 1), (''dir'', PStr ''desc'')]"
  let ?k2 = "[(''column'', PInt 0), (''dir'', PStr ''up'')]"
  let ?r = "DataTablesRequest_init Omitted Omitted Omitted Omitted
        (Given (Some [?k1, ?k2])) (Given (Some ?cols)) Omitted"
  let ?s2 = "(select_model ''Book'')
               \<lparr>sel_order_by := [Desc \<lparr>a_owner = Mapped ''Book'', a_name = ''pages'',
                                       a_member = Column Integer\<rparr>]\<rparr>"
  have ord: "order ?r = Some ([?k1] @ ?k2 # [])"
    by (simp add: DataTablesRequest_init_def)
  have cols: "columns ?r = Some ?cols"
    by (simp add: DataTablesRequest_init_def)
  have "apply_ordering_loop library ''Book'' (Some ?cols) [?k1] (select_model ''Book'') 0
               = Inr (?s2, 0)"
    by code_simp
  with cols
  have pre: "apply_ordering_loop library ''Book'' (columns ?r) [?k1] (select_model ''Book'') 0
               = Inr (?s2, 0)"
    by simp
  have idx: "map_of ?k2 ''column'' = Some (PInt 0)" "int_of (PInt 0) = Inr 0"
    by simp_all
  have col: "py_index ?cols 0 = Some [(''name'', PStr ''author.name'')]"
            "map_of [(''name'', PStr ''author.name'')] ''name'' = Some (PStr ''author.name'')"
    by (simp_all add: py_index_def)
  have res: "resolve_parts library (Mapped ''Book'') [] (split_on CHR ''.'' ''author.name'') None
               (empty_env 0)
             = Inr (Some \<lparr>a_owner = Aliased 0 ''Author'', a_name = ''name'',
                           a_member = Column String\<rparr>,
                    \<lparr>joins = [(''author'', (\<lparr>a_owner = Mapped ''Book'', a_name = ''author'',
                                               a_member = Relation ''Author''\<rparr>,
                                             Aliased 0 ''Author''))],
                     aliased_models = [(''author'', Aliased 0 ''Author'')], next_alias = 1\<rparr>)"
    by code_simp
  have dir: "map_of ?k2 ''dir'' = Some (PStr ''up'')"
            "PStr ''up'' \<noteq> PStr ''asc''" "PStr ''up'' \<noteq> PStr ''desc''"
    by simp_all
  have tot: "get_total_records echo_backend (get_query ''Book'' None) = Inr 3"
    by (simp add: echo_backend_def)
  have gf: "get_filtered_query library ''Book'' (get_query ''Book'' None) ?r 0
              = Inr (select_model ''Book'', 0)"
    by (simp add: get_filtered_query_def search_value_of_def DataTablesRequest_init_def
          get_query_def)
  have fil: "get_filtered_records echo_backend (select_model ''Book'') = Inr 3"
    by (simp add: echo_backend_def)
  have kp: "known_path library ''Book'' (split_on CHR ''.'' ''author.name'')"
    by (simp add: library_def)
  note inst = bad_direction_aborts [OF ord idx cols col dir]
  have first: "process echo_backend library ''Book'' None ?r 0
                 = Inl (ConfigurationError direction_message)"
    by (rule inst [THEN conjunct1, THEN mp, OF pre, THEN mp, OF res, THEN conjunct2,
          THEN mp, OF tot, THEN mp, OF gf, THEN mp, OF fil])
  have third: "\<forall>resp. process echo_backend library ''Book'' None ?r 0 \<noteq> Inr resp"
    by (rule inst [THEN conjunct2, THEN mp, OF kp, THEN conjunct2])
  from first kp third show ?thesis by (intro conjI)
qed

text \<open>
  C6. Let a path contain a segment that does not resolve: it is not a known path of the
  schema from the root model. Then resolving it from empty dictionaries raises
  \<open>AttributeError\<close>, and every caller turns that into \<open>InvalidColumnError\<close> carrying the
  path and returns no statement at all:
  \<^item> \<open>get_filtered_query\<close>, when the search value is not empty and the path is the name
    of a searchable column whose searchable predecessors have known paths, and then
    \<open>process\<close> as soon as the total count has succeeded;
  \<^item> \<open>global_filter\<close> of utils.py, under the same conditions on its typed columns;
  \<^item> \<open>apply_ordering\<close>, when the path is the name of the column of an order key whose
    predecessors have been applied, and then \<open>process\<close> once the counts and the search
    filter have succeeded.
\<close>

theorem unknown_segment_aborts:
  assumes bad: "\<not> known_path sch model (split_on CHR ''.'' path)"
  shows "resolve_column sch model path (empty_env n) = Inl AttributeError
       \<and> (search_value_of request_data \<noteq> [] \<longrightarrow>
          columns request_data = Some (pre @ c # post) \<longrightarrow>
          (\<forall>col\<in>set pre. \<not> truthy (dict_get col ''searchable'')
              \<or> (\<exists>p. map_of col ''name'' = Some (PStr p)
                     \<and> known_path sch model (split_on CHR ''.'' p))) \<longrightarrow>
          truthy (dict_get c ''searchable'') \<longrightarrow>
          map_of c ''name'' = Some (PStr path) \<longrightarrow>
            get_filtered_query sch model stmt request_data n
              = Inl (InvalidColumnError ''Invalid column path: '' (PStr path))
          \<and> (get_total_records db_backend (get_query model base_statment) = Inr t \<longrightarrow>
               process db_backend sch model base_statment request_data n
                 = Inl (InvalidColumnError ''Invalid column path: '' (PStr path))))
       \<and> (search_value \<noteq> [] \<longrightarrow>
          (\<forall>col\<in>set tpre. \<not> searchable col
              \<or> known_path sch model (split_on CHR ''.'' (name col))) \<longrightarrow>
          searchable tc \<longrightarrow>
          name tc = path \<longrightarrow>
            global_filter sch search_value stmt (tpre @ tc # tpost) model n
              = Inl (InvalidColumnError ''Invalid column path: '' (PStr path)))
       \<and> (order ordered_request = Some (opre @ key # opost) \<longrightarrow>
          apply_ordering_loop sch model (columns ordered_request) opre stmt1 n1
            = Inr (stmt2, n2) \<longrightarrow>
          map_of key ''column'' = Some col_index \<longrightarrow>
          int_of col_index = Inr i \<longrightarrow>
          columns ordered_request = Some cols \<longrightarrow>
          py_index cols i = Some ocol \<longrightarrow>
          map_of ocol ''name'' = Some (PStr path) \<longrightarrow>
          map_of key ''dir'' = Some direction \<longrightarrow>
            apply_ordering sch model stmt1 ordered_request n1
              = Inl (InvalidColumnError ''Invalid column for ordering: '' (PStr path))
          \<and> (get_total_records db_backend (get_query model base_statment) = Inr t \<longrightarrow>
               get_filtered_query sch model (get_query model base_statment) ordered_request n0
                 = Inr (stmt1, n1) \<longrightarrow>
               get_filtered_records db_backend stmt1 = Inr f \<longrightarrow>
               process db_backend sch model base_statment ordered_request n0
                 = Inl (InvalidColumnError ''Invalid column for ordering: '' (PStr path))))"
proof -
  have root: "resolve_parts sch (Mapped model) [] (split_on CHR ''.'' path) None (empty_env m)
                = Inl AttributeError" for m
    using resolve_root_known [OF empty_env_sound, of sch model path m] bad by blast
  then have first: "resolve_column sch model path (empty_env n) = Inl AttributeError"
    by (simp add: resolve_column_def)
  have search: "get_filtered_query sch model stmt request_data n
              = Inl (InvalidColumnError ''Invalid column path: '' (PStr path))
          \<and> (get_total_records db_backend (get_query model base_statment) = Inr t \<longrightarrow>
               process db_backend sch model base_statment request_data n
                 = Inl (InvalidColumnError ''Invalid column path: '' (PStr path)))"
    if sv: "search_value_of request_data \<noteq> []"
      and cols: "columns request_data = Some (pre @ c # post)"
      and pre: "\<forall>col\<in>set pre. \<not> truthy (dict_get col ''searchable'')
              \<or> (\<exists>p. map_of col ''name'' = Some (PStr p)
                     \<and> known_path sch model (split_on CHR ''.'' p))"
      and c: "truthy (dict_get c ''searchable'')" "map_of c ''name'' = Some (PStr path)"
  proof -
    have loop: "search_columns sch model (search_value_of request_data) (pre @ c # post) []
                  (empty_env m)
                = Inl (InvalidColumnError ''Invalid column path: '' (PStr path))" for m
      by (rule search_columns_bad_path [OF empty_env_sound pre c bad])
    have gf: "get_filtered_query sch model s request_data m
                = Inl (InvalidColumnError ''Invalid column path: '' (PStr path))" for s m
      using sv cols loop by (simp add: get_filtered_query_def Let_def)
    then show ?thesis by (simp add: process_def Let_def)
  qed
  have glob: "global_filter sch search_value stmt (tpre @ tc # tpost) model n
              = Inl (InvalidColumnError ''Invalid column path: '' (PStr path))"
    if sv: "search_value \<noteq> []"
      and pre: "\<forall>col\<in>set tpre. \<not> searchable col
              \<or> known_path sch model (split_on CHR ''.'' (name col))"
      and c: "searchable tc" "name tc = path"
  proof -
    from bad c(2) have bad': "\<not> known_path sch model (split_on CHR ''.'' (name tc))" by simp
    have "global_filter_loop sch model search_value (tpre @ tc # tpost) [] (empty_env n)
            = Inl (InvalidColumnError ''Invalid column path: '' (PStr (name tc)))"
      by (rule global_filter_loop_bad_path [OF empty_env_sound pre c(1) bad'])
    with sv c(2) show ?thesis by (simp add: global_filter_def)
  qed
  have ordering: "apply_ordering sch model stmt1 ordered_request n1
              = Inl (InvalidColumnError ''Invalid column for ordering: '' (PStr path))
          \<and> (get_total_records db_backend (get_query model base_statment) = Inr t \<longrightarrow>
               get_filtered_query sch model (get_query model base_statment) ordered_request n0
                 = Inr (stmt1, n1) \<longrightarrow>
               get_filtered_records db_backend stmt1 = Inr f \<longrightarrow>
               process db_backend sch model base_statment ordered_request n0
                 = Inl (InvalidColumnError ''Invalid column for ordering: '' (PStr path)))"
    if ord: "order ordered_request = Some (opre @ key # opost)"
      and pre: "apply_ordering_loop sch model (columns ordered_request) opre stmt1 n1
                  = Inr (stmt2, n2)"
      and idx: "map_of key ''column'' = Some col_index" "int_of col_index = Inr i"
      and col: "columns ordered_request = Some cols" "py_index cols i = Some ocol"
               "map_of ocol ''name'' = Some (PStr path)"
      and dir: "map_of key ''dir'' = Some direction"
  proof -
    have attempt: "apply_ordering_try sch model (PStr path) direction stmt2 n2 = Inl AttributeError"
      using root [of n2] by (simp add: apply_ordering_try_def)
    have step: "apply_ordering_step sch model (columns ordered_request) key stmt2 n2
                  = Inl (InvalidColumnError ''Invalid column for ordering: '' (PStr path))"
      using idx col dir attempt by (simp add: apply_ordering_step_def)
    have "apply_ordering_loop sch model (columns ordered_request) (opre @ key # opost) stmt1 n1
            = Inl (InvalidColumnError ''Invalid column for ordering: '' (PStr path))"
      using pre step by (simp add: apply_ordering_loop_append)
    with ord have "apply_ordering sch model stmt1 ordered_request n1
                     = Inl (InvalidColumnError ''Invalid column for ordering: '' (PStr path))"
      by (simp add: apply_ordering_def)
    then show ?thesis by (simp add: process_def Let_def)
  qed
  from first search glob ordering show ?thesis by blast
qed

theorem unknown_segment_aborts_witness:
  "resolve_column library ''Book'' ''missing.field'' (empty_env 0) = Inl AttributeError
   \<and> process echo_backend library ''Book'' None
        (DataTablesRequest_init Omitted Omitted Omitted (Given (Some [(''value'', ''x'')])) Omitted
           (Given (Some [[(''name'', PStr ''author.name''), (''searchable'', PBool True)],
                         [(''name'', PStr ''missing.field''), (''searchable'', PBool True)]]))
           Omitted) 0
      = Inl (InvalidColumnError ''Invalid column path: '' (PStr ''missing.field''))
   \<and> global_filter library ''x'' (select_model ''Book'')
        [\<lparr>name = ''author.name'', searchable = True, orderable = True,
          search_c = \<lparr>value = None, matchMode = None\<rparr>\<rparr>,
         \<lparr>name = ''missing.field'', searchable = True, orderable = True,
          search_c = \<lparr>value = None, matchMode = None\<rparr>\<rparr>] ''Book'' 0
      = Inl (InvalidColumnError ''Invalid column path: '' (PStr ''missing.field''))
   \<and> process echo_backend library ''Book'' None
        (DataTablesRequest_init Omitted Omitted Omitted Omitted
           (Given (Some [[(''column'', PInt 0), (''dir'', PStr ''asc'')]]))
           (Given (Some [[(''name'', PStr ''missing.field'')]])) Omitted) 0
      = Inl (InvalidColumnError ''Invalid column for ordering: '' (PStr ''missing.field''))"
proof -
  let ?good = "[(''name'', PStr ''author.name''), (''searchable'', PBool True)]"
  let ?bad = "[(''name'', PStr ''missing.field''), (''searchable'', PBool True)]"
  let ?r = "DataTablesRequest_init Omitted Omitted Omitted (Given (Some [(''value'', ''x'')])) Omitted
           (Given (Some [?good, ?bad])) Omitted"
  let ?tgood = "\<lparr>name = ''author.name'', searchable = True, orderable = True,
                  search_c = \<lparr>value = None, matchMode = None\<rparr>\<rparr>"
  let ?tbad = "\<lparr>name = ''missing.field'', searchable = True, orderable = True,
                 search_c = \<lparr>value = None, matchMode = None\<rparr>\<rparr>"
  let ?key = "[(''column'', PInt 0), (''dir'', PStr ''asc'')]"
  let ?ocol = "[(''name'', PStr ''missing.field'')]"
  let ?o = "DataTablesRequest_init Omitted Omitted Omitted Omitted
           (Given (Some [?key])) (Given (Some [?ocol])) Omitted"
  have bad: "\<not> known_path library ''Book'' (split_on CHR ''.'' ''missing.field'')"
    by (simp add: library_def)
  have good: "known_path library ''Book'' (split_on CHR ''.'' ''author.name'')"
    by (simp add: library_def)
  note inst = unknown_segment_aborts [OF bad]
  have first: "resolve_column library ''Book'' ''missing.field'' (empty_env 0) = Inl AttributeError"
    by (rule inst [THEN conjunct1])
  have sv: "search_value_of ?r \<noteq> []"
    by (simp add: search_value_of_def DataTablesRequest_init_def strip_def is_space_def)
  have cols: "columns ?r = Some ([?good] @ ?bad # [])"
    by (simp add: DataTablesRequest_init_def)
  have pre: "\<forall>col\<in>set [?good]. \<not> truthy (dict_get col ''searchable'')
              \<or> (\<exists>p. map_of col ''name'' = Some (PStr p)
                     \<and> known_path library ''Book'' (split_on CHR ''.'' p))"
    using good by simp
  have c: "truthy (dict_get ?bad ''searchable'')" "map_of ?bad ''name'' = Some (PStr ''missing.field'')"
    by (simp_all add: dict_get_def)
  have tot: "get_total_records echo_backend (get_query ''Book'' None) = Inr 3"
    by (simp add: echo_backend_def)
  have second: "process echo_backend library ''Book'' None ?r 0
      = Inl (InvalidColumnError ''Invalid column path: '' (PStr ''missing.field''))"
    by (rule inst [THEN conjunct2, THEN conjunct1, THEN mp, OF sv, THEN mp, OF cols,
          THEN mp, OF pre, THEN mp, OF c(1), THEN mp, OF c(2), THEN conjunct2, THEN mp, OF tot])
  have tsv: "''x'' \<noteq> []" by simp
  have tpre: "\<forall>col\<in>set [?tgood]. \<not> searchable col
              \<or> known_path library ''Book'' (split_on CHR ''.'' (name col))"
    using good by simp
  have tc: "searchable ?tbad" "name ?tbad = ''missing.field''"
    by simp_all
  have "global_filter library ''x'' (select_model ''Book'') ([?tgood] @ ?tbad # []) ''Book'' 0
      = Inl (InvalidColumnError ''Invalid column path: '' (PStr ''missing.field''))"
    by (rule inst [THEN conjunct2, THEN conjunct2, THEN conjunct1, THEN mp, OF tsv,
          THEN mp, OF tpre, THEN mp, OF tc(1), THEN mp, OF tc(2)])
  then have third: "global_filter library ''x'' (select_model ''Book'') [?tgood, ?tbad] ''Book'' 0
      = Inl (InvalidColumnError ''Invalid column path: '' (PStr ''missing.field''))"
    by simp
  have ord: "order ?o = Some ([] @ ?key # [])"
    by (simp add: DataTablesRequest_init_def)
  have opre: "apply_ordering_loop library ''Book'' (columns ?o) [] (select_model ''Book'') 0
                = Inr (select_model ''Book'', 0)"
    by simp
  have idx: "map_of ?key ''column'' = Some (PInt 0)" "int_of (PInt 0) = Inr 0"
    by simp_all
  have ocols: "columns ?o = Some [?ocol]" "py_index [?ocol] 0 = Some ?ocol"
              "map_of ?ocol ''name'' = Some (PStr ''missing.field'')"
    by (simp_all add: DataTablesRequest_init_def py_index_def)
  have dir: "map_of ?key ''dir'' = Some (PStr ''asc'')"
    by simp
  have gf: "get_filtered_query library ''Book'' (get_query ''Book'' None) ?o 0
              = Inr (select_model ''Book'', 0)"
    by (simp add: get_filtered_query_def search_value_of_def DataTablesRequest_init_def
          get_query_def)
  have fil: "get_filtered_records echo_backend (select_model ''Book'') = Inr 3"
    by (simp add: echo_backend_def)
  have fourth: "process echo_backend library ''Book'' None ?o 0
      = Inl (InvalidColumnError ''Invalid column for ordering: '' (PStr ''missing.field''))"
    by (rule inst [THEN conjunct2, THEN conjunct2, THEN conjunct2, THEN mp, OF ord,
          THEN mp, OF opre, THEN mp, OF idx(1), THEN mp, OF idx(2), THEN mp, OF ocols(1),
          THEN mp, OF ocols(2), THEN mp, OF ocols(3), THEN mp, OF dir,
          THEN conjunct2, THEN mp, OF tot, THEN mp, OF gf, THEN mp, OF fil])
  from first second third fourth show ?thesis by (intro conjI)
qed

section \<open>Per-column filters\<close>

lemma resolve_column_Some:
  "resolve_column sch model path e = Inr (ca, e') \<Longrightarrow> \<exists>a. ca = Some a"
  using resolve_parts_owner [of sch "Mapped model" "[]" "split_on CHR ''.'' path" None e ca e']
    split_on_nonempty [of "CHR ''.''" path]
  by (auto simp: resolve_column_def)

lemma column_filter_loop_spec:
  "column_filter_loop sch model cols conds0 e0 = Inr (conds, e) \<Longrightarrow>
     (\<forall>k v. map_of (aliased_models e0) k = Some v \<longrightarrow> map_of (aliased_models e) k = Some v)
   \<and> (\<forall>col\<in>set cols. searchable col \<and> filter_value col \<noteq> [] \<longrightarrow>
          (\<exists>a. resolve_column sch model (name col) e = Inr (Some a, e)))
   \<and> conds = conds0 @
        List.map_filter
          (\<lambda>col. case resolve_column sch model (name col) e of
                   Inr (Some a, e') \<Rightarrow> build_condition a CONTAINS (filter_value col)
                 | _ \<Rightarrow> None)
          (filter (\<lambda>col. searchable col \<and> filter_value col \<noteq> []) cols)"
proof (induction cols arbitrary: conds0 e0)
  case Nil
  then show ?case by (simp add: List.map_filter_simps)
next
  case (Cons col cols)
  let ?pred = "\<lambda>col. case resolve_column sch model (name col) e of
                   Inr (Some a, e') \<Rightarrow> build_condition a CONTAINS (filter_value col)
                 | _ \<Rightarrow> None"
  let ?active = "\<lambda>col. searchable col \<and> filter_value col \<noteq> []"
  show ?case
  proof (cases "?active col")
    case False
    with Cons.prems have "column_filter_loop sch model cols conds0 e0 = Inr (conds, e)"
      by (auto split: if_splits)
    note ih = Cons.IH [OF this]
    from False have flt: "filter ?active (col # cols) = filter ?active cols" by simp
    from ih have ext: "\<forall>k v. map_of (aliased_models e0) k = Some v
                         \<longrightarrow> map_of (aliased_models e) k = Some v"
      by blast
    have all: "\<forall>c\<in>set (col # cols). ?active c \<longrightarrow>
                 (\<exists>a. resolve_column sch model (name c) e = Inr (Some a, e))"
      using ih False by auto
    from ih have "conds = conds0 @ List.map_filter ?pred (filter ?active cols)"
      by blast
    then have "conds = conds0 @ List.map_filter ?pred (filter ?active (col # cols))"
      unfolding flt .
    with ext all show ?thesis by blast
  next
    case True
    with Cons.prems obtain ca e1 where
      r: "resolve_column sch model (name col) e0 = Inr (ca, e1)"
      by (auto split: sum.splits if_splits)
    from resolve_column_Some [OF r] obtain a where ca: "ca = Some a" by blast
    let ?c1 = "case build_condition a CONTAINS (filter_value col) of
                 None \<Rightarrow> conds0 | Some c \<Rightarrow> conds0 @ [c]"
    from Cons.prems True r ca
    have rec: "column_filter_loop sch model cols ?c1 e1 = Inr (conds, e)"
      by (auto split: option.splits)
    note ih = Cons.IH [OF rec]
    from ih have ext1: "\<forall>k v. map_of (aliased_models e1) k = Some v
                          \<longrightarrow> map_of (aliased_models e) k = Some v"
      by blast
    from r ca have p0: "resolve_parts sch (Mapped model) [] (split_on CHR ''.'' (name col)) None e0
                          = Inr (Some a, e1)"
      by (simp add: resolve_column_def)
    have "resolve_parts sch (Mapped model) [] (split_on CHR ''.'' (name col)) None e
            = Inr (Some a, e)"
      by (rule resolve_parts_again [OF p0 ext1])
    then have again: "resolve_column sch model (name col) e = Inr (Some a, e)"
      by (simp add: resolve_column_def)
    have ext: "\<forall>k v. map_of (aliased_models e0) k = Some v
                 \<longrightarrow> map_of (aliased_models e) k = Some v"
      using resolve_parts_keeps [OF p0] ext1 by blast
    have all: "\<forall>c\<in>set (col # cols). ?active c \<longrightarrow>
                 (\<exists>a. resolve_column sch model (name c) e = Inr (Some a, e))"
      using ih again by auto
    from again have pc: "?pred col = build_condition a CONTAINS (filter_value col)"
      by simp
    from ih have "conds = ?c1 @ List.map_filter ?pred (filter ?active cols)"
      by blast
    with True pc have "conds = conds0 @ List.map_filter ?pred (filter ?active (col # cols))"
      by (cases "build_condition a CONTAINS (filter_value col)")
         (simp_all add: List.map_filter_simps)
    with ext all show ?thesis by blast
  qed
qed

lemma fold_join_stmt:
  "fold (\<lambda>(key, (relation_attr, aliased_model)) s. join_stmt s aliased_model relation_attr) js stmt
     = stmt\<lparr>sel_joins := sel_joins stmt
               @ map (\<lambda>(key, (relation_attr, aliased_model)). (aliased_model, relation_attr)) js\<rparr>"
  by (induction js arbitrary: stmt) (auto simp: join_stmt_def)

lemma apply_joins_eq:
  "apply_joins stmt js
     = stmt\<lparr>sel_joins := sel_joins stmt
               @ map (\<lambda>(key, (relation_attr, aliased_model)). (aliased_model, relation_attr)) js\<rparr>"
  by (simp add: apply_joins_def fold_join_stmt)

lemma search_columns_map:
  "(\<forall>col. map_of (g col) ''name'' = map_of col ''name''
         \<and> dict_get (g col) ''searchable'' = dict_get col ''searchable'') \<Longrightarrow>
   search_columns sch model sv (map g cols) conds e = search_columns sch model sv cols conds e"
proof (induction cols arbitrary: conds e)
  case Nil
  then show ?case by simp
next
  case (Cons col cols)
  from Cons.prems have g: "map_of (g col) ''name'' = map_of col ''name''"
    "dict_get (g col) ''searchable'' = dict_get col ''searchable''"
    by simp_all
  from Cons.IH [OF Cons.prems] g show ?case
    by (simp split: option.splits sum.splits prod.splits)
qed

lemma py_index_map: "py_index (map g xs) i = map_option g (py_index xs i)"
  by (simp add: py_index_def Let_def)

lemma apply_ordering_step_map:
  assumes "\<forall>col. map_of (g col) ''name'' = map_of col ''name''"
  shows "apply_ordering_step sch model (map_option (map g) cols) ord stmt n
           = apply_ordering_step sch model cols ord stmt n"
proof (cases cols)
  case None
  then show ?thesis by (simp add: apply_ordering_step_def)
next
  case (Some cs)
  show ?thesis
    unfolding Some apply_ordering_step_def
    using assms by (simp add: py_index_map split: option.splits sum.splits)
qed

lemma apply_ordering_loop_map:
  assumes "\<forall>col. map_of (g col) ''name'' = map_of col ''name''"
  shows "apply_ordering_loop sch model (map_option (map g) cols) ords stmt n
           = apply_ordering_loop sch model cols ords stmt n"
  by (induction ords arbitrary: stmt n)
     (auto simp: apply_ordering_step_map [OF assms] split: sum.splits prod.splits)

lemma process_reads_name_and_searchable:
  assumes g: "\<forall>col. map_of (g col) ''name'' = map_of col ''name''
               \<and> dict_get (g col) ''searchable'' = dict_get col ''searchable''"
  shows "process db_backend sch model base_statment
           (request_data\<lparr>columns := map_option (map g) (columns request_data)\<rparr>) n
         = process db_backend sch model base_statment request_data n"
proof -
  let ?r = "request_data\<lparr>columns := map_option (map g) (columns request_data)\<rparr>"
  from g have gn: "\<forall>col. map_of (g col) ''name'' = map_of col ''name''" by simp
  have sv: "search_value_of (request_data\<lparr>columns := x\<rparr>) = search_value_of request_data" for x
    by (simp add: search_value_of_def)
  have gf: "get_filtered_query sch model s ?r m = get_filtered_query sch model s request_data m"
    for s m
    by (cases "columns request_data")
       (simp_all add: get_filtered_query_def sv Let_def search_columns_map [OF g])
  have ao: "apply_ordering sch model s ?r m = apply_ordering sch model s request_data m" for s m
    by (simp add: apply_ordering_def apply_ordering_loop_map [OF gn] split: option.splits)
  show ?thesis
    unfolding process_def gf ao
    by (auto simp: Let_def split: sum.splits prod.splits)
qed

text \<open>
  C1, what \<open>column_filter\<close> does. When \<open>column_filter\<close> returns, its loop has ended with
  conditions \<open>conds\<close> and dictionaries \<open>e\<close> such that every column that is searchable and
  has a filter value that is not empty after \<open>strip\<close> resolves against \<open>e\<close>; \<open>conds\<close> are,
  in the order of the columns, the predicates \<open>build_condition\<close> gives for the resolved
  attribute and the column's filter value, where it gives one; and the statement
  returned is the statement given with the joins of \<open>e\<close> added and, unless \<open>conds\<close> is
  empty, the one condition \<open>And conds\<close> added.

  C1, what \<open>process\<close> does. \<open>process\<close> does not call \<open>column_filter\<close>: of a column it reads
  the entries \<open>name\<close> and \<open>searchable\<close> only, so changing anything else in the columns of
  a request, such as the filter values, changes nothing in its result.
\<close>

theorem column_filter_conjunction:
  assumes cf: "column_filter sch stmt cols model n = Inr (stmt', n')"
  shows "(\<exists>conds e.
            column_filter_loop sch model cols [] (empty_env n) = Inr (conds, e)
          \<and> (\<forall>col\<in>set cols. searchable col \<and> filter_value col \<noteq> [] \<longrightarrow>
                (\<exists>a. resolve_column sch model (name col) e = Inr (Some a, e)))
          \<and> conds =
              List.map_filter
                (\<lambda>col. case resolve_column sch model (name col) e of
                         Inr (Some a, e') \<Rightarrow> build_condition a CONTAINS (filter_value col)
                       | _ \<Rightarrow> None)
                (filter (\<lambda>col. searchable col \<and> filter_value col \<noteq> []) cols)
          \<and> stmt' =
              stmt\<lparr>sel_joins :=
                     sel_joins stmt
                       @ map (\<lambda>(key, (relation_attr, aliased_model)). (aliased_model, relation_attr))
                           (joins e),
                   sel_where := sel_where stmt @ (if conds = [] then [] else [And conds])\<rparr>
          \<and> n' = next_alias e)
       \<and> (\<forall>g. (\<forall>col. map_of (g col) ''name'' = map_of col ''name''
                    \<and> dict_get (g col) ''searchable'' = dict_get col ''searchable'') \<longrightarrow>
              process db_backend sch model base_statment
                (request_data\<lparr>columns := map_option (map g) (columns request_data)\<rparr>) m
              = process db_backend sch model base_statment request_data m)"
proof -
  from cf obtain conds e where
    loop: "column_filter_loop sch model cols [] (empty_env n) = Inr (conds, e)"
    and st: "stmt' = (let stmt1 = apply_joins stmt (joins e)
                      in if conds \<noteq> [] then where_stmt stmt1 (And conds) else stmt1)"
    and n': "n' = next_alias e"
    by (auto simp: column_filter_def split: sum.splits prod.splits)
  note spec = column_filter_loop_spec [OF loop]
  from spec have all: "\<forall>col\<in>set cols. searchable col \<and> filter_value col \<noteq> [] \<longrightarrow>
                (\<exists>a. resolve_column sch model (name col) e = Inr (Some a, e))"
    by blast
  from spec have cs: "conds =
              List.map_filter
                (\<lambda>col. case resolve_column sch model (name col) e of
                         Inr (Some a, e') \<Rightarrow> build_condition a CONTAINS (filter_value col)
                       | _ \<Rightarrow> None)
                (filter (\<lambda>col. searchable col \<and> filter_value col \<noteq> []) cols)"
    by simp
  have st': "stmt' =
              stmt\<lparr>sel_joins :=
                     sel_joins stmt
                       @ map (\<lambda>(key, (relation_attr, aliased_model)). (aliased_model, relation_attr))
                           (joins e),
                   sel_where := sel_where stmt @ (if conds = [] then [] else [And conds])\<rparr>"
    unfolding st by (cases stmt) (simp add: apply_joins_eq where_stmt_def Let_def)
  have first: "\<exists>conds e.
            column_filter_loop sch model cols [] (empty_env n) = Inr (conds, e)
          \<and> (\<forall>col\<in>set cols. searchable col \<and> filter_value col \<noteq> [] \<longrightarrow>
                (\<exists>a. resolve_column sch model (name col) e = Inr (Some a, e)))
          \<and> conds =
              List.map_filter
                (\<lambda>col. case resolve_column sch model (name col) e of
                         Inr (Some a, e') \<Rightarrow> build_condition a CONTAINS (filter_value col)
                       | _ \<Rightarrow> None)
                (filter (\<lambda>col. searchable col \<and> filter_value col \<noteq> []) cols)
          \<and> stmt' =
              stmt\<lparr>sel_joins :=
                     sel_joins stmt
                       @ map (\<lambda>(key, (relation_attr, aliased_model)). (aliased_model, relation_attr))
                           (joins e),
                   sel_where := sel_where stmt @ (if conds = [] then [] else [And conds])\<rparr>
          \<and> n' = next_alias e"
    using loop all cs st' n' by blast
  have second: "\<forall>g. (\<forall>col. map_of (g col) ''name'' = map_of col ''name''
                    \<and> dict_get (g col) ''searchable'' = dict_get col ''searchable'') \<longrightarrow>
              process db_backend sch model base_statment
                (request_data\<lparr>columns := map_option (map g) (columns request_data)\<rparr>) m
              = process db_backend sch model base_statment request_data m"
    using process_reads_name_and_searchable by blast
  from first second show ?thesis by (rule conjI)
qed

theorem column_filter_conjunction_witness:
  "column_filter library (select_model ''Book'')
     [\<lparr>name = ''title'', searchable = True, orderable = True,
       search_c = \<lparr>value = Some '' dune '', matchMode = None\<rparr>\<rparr>,
      \<lparr>name = ''pages'', searchable = True, orderable = True,
       search_c = \<lparr>value = Some '' '', matchMode = None\<rparr>\<rparr>,
      \<lparr>name = ''author.name'', searchable = True, orderable = True,
       search_c = \<lparr>value = Some ''herbert'', matchMode = None\<rparr>\<rparr>,
      \<lparr>name = ''published'', searchable = False, orderable = True,
       search_c = \<lparr>value = Some ''2024'', matchMode = None\<rparr>\<rparr>] ''Book'' 0
   = Inr ((select_model ''Book'')
            \<lparr>sel_joins :=
               [(Aliased 0 ''Author'',
                 \<lparr>a_owner = Mapped ''Book'', a_name = ''author'', a_member = Relation ''Author''\<rparr>)],
             sel_where :=
               [And [ILike (ColE \<lparr>a_owner = Mapped ''Book'', a_name = ''title'',
                                   a_member = Column String\<rparr>) ''%dune%'',
                     ILike (ColE \<lparr>a_owner = Aliased 0 ''Author'', a_name = ''name'',
                                   a_member = Column String\<rparr>) ''%herbert%'']]\<rparr>, 1)
   \<and> process echo_backend library ''Book'' None
        ((DataTablesRequest_init Omitted Omitted Omitted Omitted Omitted
            (Given (Some [[(''name'', PStr ''title''), (''searchable'', PBool True)]])) Omitted)
           \<lparr>columns :=
              map_option (map (dict_set ''search'' (PDict [(''value'', PStr ''dune'')])))
                (columns (DataTablesRequest_init Omitted Omitted Omitted Omitted Omitted
                   (Given (Some [[(''name'', PStr ''title''), (''searchable'', PBool True)]]))
                   Omitted))\<rparr>) 0
      = process echo_backend library ''Book'' None
          (DataTablesRequest_init Omitted Omitted Omitted Omitted Omitted
            (Given (Some [[(''name'', PStr ''title''), (''searchable'', PBool True)]])) Omitted) 0"
proof -
  have cf: "column_filter library (select_model ''Book'')
     [\<lparr>name = ''title'', searchable = True, orderable = True,
       search_c = \<lparr>value = Some '' dune '', matchMode = None\<rparr>\<rparr>,
      \<lparr>name = ''pages'', searchable = True, orderable = True,
       search_c = \<lparr>value = Some '' '', matchMode = None\<rparr>\<rparr>,
      \<lparr>name = ''author.name'', searchable = True, orderable = True,
       search_c = \<lparr>value = Some ''herbert'', matchMode = None\<rparr>\<rparr>,
      \<lparr>name = ''published'', searchable = False, orderable = True,
       search_c = \<lparr>value = Some ''2024'', matchMode = None\<rparr>\<rparr>] ''Book'' 0
   = Inr ((select_model ''Book'')
            \<lparr>sel_joins :=
               [(Aliased 0 ''Author'',
                 \<lparr>a_owner = Mapped ''Book'', a_name = ''author'', a_member = Relation ''Author''\<rparr>)],
             sel_where :=
               [And [ILike (ColE \<lparr>a_owner = Mapped ''Book'', a_name = ''title'',
                                   a_member = Column String\<rparr>) ''%dune%'',
                     ILike (ColE \<lparr>a_owner = Aliased 0 ''Author'', a_name = ''name'',
                                   a_member = Column String\<rparr>) ''%herbert%'']]\<rparr>, 1)"
    by code_simp
  have g: "\<forall>col. map_of (dict_set ''search'' (PDict [(''value'', PStr ''dune'')]) col) ''name''
                   = map_of col ''name''
               \<and> dict_get (dict_set ''search'' (PDict [(''value'', PStr ''dune'')]) col) ''searchable''
                   = dict_get col ''searchable''"
    by (simp add: map_of_dict_set dict_get_def)
  note inst = column_filter_conjunction [OF cf, THEN conjunct2, THEN spec, THEN mp, OF g]
  from cf inst show ?thesis by (rule conjI)
qed

text \<open>
  C1 on \<open>process\<close>. A request with no search value whose one column is searchable and
  carries the filter value \<open>dune\<close> is counted and executed without any condition. And a
  filter value of blanks only, though not empty, gives no predicate in \<open>column_filter\<close>.
\<close>

theorem process_ignores_column_filter:
  "process echo_backend library ''Book'' None
     (DataTablesRequest_init Omitted Omitted Omitted Omitted Omitted
        (Given (Some [[(''name'', PStr ''title''), (''searchable'', PBool True),
                       (''search'', PDict [(''value'', PStr ''dune'')])]])) Omitted) 0
   = Inr \<lparr>r_draw = Some 1, recordsTotal = 3, recordsFiltered = 3,
          data = [(select_model ''Book'')\<lparr>sel_offset := Some 0, sel_limit := Some 10\<rparr>]\<rparr>
   \<and> sel_where ((select_model ''Book'')\<lparr>sel_offset := Some 0, sel_limit := Some 10\<rparr>) = []
   \<and> column_filter library (select_model ''Book'')
        [\<lparr>name = ''title'', searchable = True, orderable = True,
          search_c = \<lparr>value = Some ''  '', matchMode = None\<rparr>\<rparr>] ''Book'' 0
      = Inr (select_model ''Book'', 0)"
  by code_simp

end
